theory Spec2Isabelle
  imports
    Main
    "HOL-Library.Char_ord"
    "HOL-Library.List_Lexorder"
    "HOL-Library.Sublist"
    "HOL-Library.Multiset"
    "HOL-Library.AList"
begin

section \<open>The extension host's workspace (extHostWorkspace.ts)\<close>

text \<open>
  A shallow embedding of \<^verbatim>\<open>src/vs/workbench/api/node/extHostWorkspace.ts\<close>: the classes
  \<^verbatim>\<open>Workspace2\<close> and \<^verbatim>\<open>ExtHostWorkspace\<close>. The object state is a record that every
  operation takes and returns; the calls sent to the main thread through \<^verbatim>\<open>_proxy\<close> and the
  events fired on \<^verbatim>\<open>_onDidChangeWorkspace\<close> are logged in that record, in the order they
  happen. \<^verbatim>\<open>undefined\<close> and \<^verbatim>\<open>null\<close> results are \<open>None\<close>, and a call that throws
  returns the error (\<open>Inl\<close>).
\<close>

subsection \<open>Imported helpers\<close>

text \<open>
  The file imports its helpers from modules that are not part of the source under study.
  The ones whose behaviour the properties below depend on are modelled here; the path
  primitives of the platform are parameters (record \<open>platform\<close>).
\<close>

text \<open>
  Modelled from the spec: \<^verbatim>\<open>URI\<close> of \<^verbatim>\<open>vs/base/common/uri\<close> is missing from the source.
  The spec calls it a "URI-like resource key" with a string form. The model keeps the
  scheme, the authority and the path; query and fragment are left out, and the string
  form does no percent-encoding.
\<close>

record uri =
  scheme :: string
  authority :: string
  path :: string

definition toString :: "uri \<Rightarrow> string" where
  "toString u =
     (if scheme u = [] then [] else scheme u @ '':'') @
     (if authority u = [] \<and> scheme u \<noteq> ''file'' then [] else ''//'') @
     authority u @ path u"

definition isAsciiLetter :: "char \<Rightarrow> bool" where
  "isAsciiLetter c =
     (let n = (of_char c :: nat) in (65 \<le> n \<and> n \<le> 90) \<or> (97 \<le> n \<and> n \<le> 122))"

definition toLowerCase :: "char \<Rightarrow> char" where
  "toLowerCase c =
     (let n = (of_char c :: nat) in if 65 \<le> n \<and> n \<le> 90 then char_of (n + 32) else c)"

text \<open>
  Modelled from the spec: \<^verbatim>\<open>URI.file\<close> and \<^verbatim>\<open>fsPath\<close> (missing from the source), on a
  platform with forward slashes: a path that starts with two slashes carries an authority,
  and every path is made to start with a slash.
\<close>

definition URI_file :: "string \<Rightarrow> uri" where
  "URI_file p =
     (let (a, p1) =
        (if take 2 p = ''//''
         then (let rest = drop 2 p;
                   pth = dropWhile (\<lambda>c. c \<noteq> CHR ''/'') rest
               in (takeWhile (\<lambda>c. c \<noteq> CHR ''/'') rest, if pth = [] then ''/'' else pth))
         else ([], p));
          p2 = (if take 1 p1 = ''/'' then p1 else CHR ''/'' # p1)
      in \<lparr>scheme = ''file'', authority = a, path = p2\<rparr>)"

definition driveLetterPath :: "string \<Rightarrow> bool" where
  "driveLetterPath p =
     (case p of
        c0 # c1 # c2 # _ \<Rightarrow> c0 = CHR ''/'' \<and> isAsciiLetter c1 \<and> c2 = CHR '':''
      | _ \<Rightarrow> False)"

definition fsPath :: "uri \<Rightarrow> string" where
  "fsPath u =
     (if authority u \<noteq> [] \<and> path u \<noteq> [] \<and> scheme u = ''file''
      then ''//'' @ authority u @ path u
      else if driveLetterPath (path u) then toLowerCase (path u ! 1) # drop 2 (path u)
      else path u)"

text \<open>
  Modelled from the spec: \<^verbatim>\<open>isEqual\<close> of \<^verbatim>\<open>vs/base/common/resources\<close> is missing from the
  source. The spec compares identifiers "case-insensitive on case-insensitive platforms":
  two URIs are equal when their string forms are, up to the case of ASCII letters when
  \<open>ignoreCase\<close> is set.
\<close>

definition equalsIgnoreCase :: "string \<Rightarrow> string \<Rightarrow> bool" where
  "equalsIgnoreCase a b = (map toLowerCase a = map toLowerCase b)"

definition isEqual :: "uri \<Rightarrow> uri \<Rightarrow> bool \<Rightarrow> bool" where
  "isEqual first second ignoreCase =
     (if ignoreCase then equalsIgnoreCase (toString first) (toString second)
      else toString first = toString second)"

text \<open>
  Modelled from the spec: \<^verbatim>\<open>basenameOrAuthority\<close> of \<^verbatim>\<open>vs/base/common/resources\<close> is
  missing from the source. The spec: the "display name defaults from the identifier's
  basename when not explicitly supplied". The basename is what follows the last separator,
  a trailing separator being dropped first; a URI whose path has no basename is named by
  its authority.
\<close>

function basename :: "string \<Rightarrow> string" where
  "basename p =
     (if CHR ''/'' \<in> set p
      then (if last p = CHR ''/'' then basename (butlast p)
            else rev (takeWhile (\<lambda>c. c \<noteq> CHR ''/'') (rev p)))
      else if CHR 0x5C \<in> set p
      then (if last p = CHR 0x5C then basename (butlast p)
            else rev (takeWhile (\<lambda>c. c \<noteq> CHR 0x5C) (rev p)))
      else p)"
  by pat_completeness auto
termination
  by (relation "measure length") (auto dest!: length_pos_if_in_set)

declare basename.simps [simp del]

definition basenameOrAuthority :: "uri \<Rightarrow> string" where
  "basenameOrAuthority resource =
     (let b = basename (path resource) in if b = [] then authority resource else b)"

text \<open>
  Modelled from the spec: \<^verbatim>\<open>compare\<close> of \<^verbatim>\<open>vs/base/common/strings\<close> is missing from the
  source. It orders two strings as JavaScript's \<^verbatim>\<open><\<close> does, character code by character
  code, and answers -1, 1 or 0.
\<close>

definition compare :: "string \<Rightarrow> string \<Rightarrow> int" where
  "compare a b = (if a < b then - 1 else if b < a then 1 else 0)"

text \<open>
  Modelled from the spec: \<^verbatim>\<open>delta\<close> of \<^verbatim>\<open>vs/base/common/arrays\<close> is missing from the
  source. The spec (FolderSetDiffer): "a sorted merge-style comparison producing: elements
  present only in oldList -> removed; present only in newList -> added; present in both ->
  neither". The result is the pair (removed, added).
\<close>

fun delta :: "'a list \<Rightarrow> 'a list \<Rightarrow> ('a \<Rightarrow> 'a \<Rightarrow> int) \<Rightarrow> 'a list \<times> 'a list" where
  "delta [] aft cmp = ([], aft)"
| "delta (b # bef) [] cmp = (b # bef, [])"
| "delta (b # bef) (a # aft) cmp =
     (let n = cmp b a in
      if n = 0 then delta bef aft cmp
      else if n < 0 then (let (rem, add) = delta bef (a # aft) cmp in (b # rem, add))
      else (let (rem, add) = delta (b # bef) aft cmp in (rem, a # add)))"

text \<open>
  \<^verbatim>\<open>Array.prototype.sort(compareFn)\<close>, as a stable insertion sort, and
  \<^verbatim>\<open>Array.prototype.splice(start, deleteCount, ...items)\<close> for a start and a count that
  are natural numbers (both are clamped to the array, as \<open>take\<close> and \<open>drop\<close> are).
\<close>

fun insert_by :: "('a \<Rightarrow> 'a \<Rightarrow> int) \<Rightarrow> 'a \<Rightarrow> 'a list \<Rightarrow> 'a list" where
  "insert_by cmp x [] = [x]"
| "insert_by cmp x (y # ys) = (if cmp x y \<le> 0 then x # y # ys else y # insert_by cmp x ys)"

definition sort_by :: "('a \<Rightarrow> 'a \<Rightarrow> int) \<Rightarrow> 'a list \<Rightarrow> 'a list" where
  "sort_by cmp xs = foldr (insert_by cmp) xs []"

definition array_splice :: "'a list \<Rightarrow> nat \<Rightarrow> nat \<Rightarrow> 'a list \<Rightarrow> 'a list" where
  "array_splice xs start deleteCount items = take start xs @ items @ drop (start + deleteCount) xs"

text \<open>
  Modelled from the spec: \<^verbatim>\<open>TernarySearchTree.forPaths\<close> of \<^verbatim>\<open>vs/base/common/map\<close> is
  missing from the source. The spec (PathIndex): \<^verbatim>\<open>insert(key, record)\<close> and a lookup that
  returns "the record whose key is the longest ancestor prefix of the query key (prefix
  match on path-segment boundaries, not raw string prefix)", "nearest ancestor or exact
  match". A key is cut into its segments at the separators \<^verbatim>\<open>/\<close> and \<^verbatim>\<open>\\<close>; the tree is
  a table from segment lists to elements.
\<close>

type_synonym 'a tst = "(string list \<times> 'a) list"

definition isSeparator :: "char \<Rightarrow> bool" where
  "isSeparator c = (c = CHR ''/'' \<or> c = CHR 0x5C)"

fun split_on :: "(char \<Rightarrow> bool) \<Rightarrow> string \<Rightarrow> string \<Rightarrow> string list" where
  "split_on sep cur [] = (if cur = [] then [] else [cur])"
| "split_on sep cur (c # cs) =
     (if sep c then (if cur = [] then split_on sep [] cs else cur # split_on sep [] cs)
      else split_on sep (cur @ [c]) cs)"

definition segments :: "string \<Rightarrow> string list" where
  "segments key = split_on isSeparator [] key"

definition tst_set :: "string \<Rightarrow> 'a \<Rightarrow> 'a tst \<Rightarrow> 'a tst" where
  "tst_set key element t = AList.update (segments key) element t"

definition tst_get :: "string \<Rightarrow> 'a tst \<Rightarrow> 'a option" where
  "tst_get key t = map_of t (segments key)"

fun findSubstr_from :: "'a tst \<Rightarrow> string list \<Rightarrow> string list \<Rightarrow> 'a option \<Rightarrow> 'a option" where
  "findSubstr_from t pre [] candidate = candidate"
| "findSubstr_from t pre (s # ss) candidate =
     findSubstr_from t (pre @ [s]) ss
       (case map_of t (pre @ [s]) of Some e \<Rightarrow> Some e | None \<Rightarrow> candidate)"

definition tst_findSubstr :: "string \<Rightarrow> 'a tst \<Rightarrow> 'a option" where
  "tst_findSubstr key t = findSubstr_from t [] (segments key) (map_of t [])"

text \<open>
  The primitives of the platform the file runs on: \<^verbatim>\<open>isLinux\<close>
  (\<^verbatim>\<open>vs/base/common/platform\<close>), \<^verbatim>\<open>dirname\<close> and \<^verbatim>\<open>relative\<close> (Node's \<^verbatim>\<open>path\<close>) and
  \<^verbatim>\<open>normalize(_, true)\<close> (\<^verbatim>\<open>vs/base/common/paths\<close>). They are parameters of the model.
\<close>

record platform =
  isLinux :: bool
  dirname :: "string \<Rightarrow> string"
  relative :: "string \<Rightarrow> string \<Rightarrow> string"
  normalize_path :: "string \<Rightarrow> string"

subsection \<open>Workspace2\<close>

record workspace_folder =
  uri :: uri
  name :: string
  index :: nat

record workspace_data =
  data_id :: string
  data_name :: string
  data_folders :: "workspace_folder list"

text \<open>
  \<open>folders\<close> is the field of the base class \<^verbatim>\<open>Workspace\<close>; \<open>priv_workspaceFolders\<close> and
  \<open>priv_structure\<close> are the private fields \<^verbatim>\<open>_workspaceFolders\<close> and \<^verbatim>\<open>_structure\<close>.
\<close>

record workspace2 =
  ws_id :: string
  ws_name :: string
  folders :: "workspace_folder list"
  priv_workspaceFolders :: "workspace_folder list"
  priv_structure :: "workspace_folder tst"

definition new_WorkspaceFolder :: "workspace_folder \<Rightarrow> workspace_folder" where
  "new_WorkspaceFolder f = \<lparr>uri = uri f, name = name f, index = index f\<rparr>"

definition new_Workspace2 :: "string \<Rightarrow> string \<Rightarrow> workspace_folder list \<Rightarrow> workspace2" where
  "new_Workspace2 i n fs =
     \<lparr>ws_id = i, ws_name = n, folders = fs,
      priv_workspaceFolders = map new_WorkspaceFolder fs,
      priv_structure = foldl (\<lambda>t f. tst_set (toString (uri f)) (new_WorkspaceFolder f) t) [] fs\<rparr>"

definition fromData :: "workspace_data option \<Rightarrow> workspace2 option" where
  "fromData d =
     (case d of
        None \<Rightarrow> None
      | Some d' \<Rightarrow> Some (new_Workspace2 (data_id d') (data_name d') (map new_WorkspaceFolder (data_folders d'))))"

definition workspaceFolders :: "workspace2 \<Rightarrow> workspace_folder list" where
  "workspaceFolders w = priv_workspaceFolders w"

definition trySetWorkspaceFolders :: "workspace2 \<Rightarrow> workspace_folder list \<Rightarrow> workspace2" where
  "trySetWorkspaceFolders w fs = w\<lparr>priv_workspaceFolders := map new_WorkspaceFolder fs\<rparr>"

definition ws_getWorkspaceFolder :: "platform \<Rightarrow> workspace2 \<Rightarrow> uri \<Rightarrow> bool \<Rightarrow> workspace_folder option" where
  "ws_getWorkspaceFolder env w u resolveParent =
     (let u' = (if resolveParent \<and> tst_get (toString u) (priv_structure w) \<noteq> None
                then u\<lparr>path := dirname env (path u)\<rparr> else u)
      in tst_findSubstr (toString u') (priv_structure w))"

subsection \<open>ExtHostWorkspace\<close>

datatype glob_pattern = GlobString string | RelativePattern string string

text \<open>
  A folder to add is an object with a \<open>uri\<close>, which may fail \<^verbatim>\<open>URI.isUri\<close> (\<open>None\<close>), and
  an optional name. The list of folders to add comes from the caller as it is: an entry
  of it is such an object, or \<^verbatim>\<open>null\<close> or \<^verbatim>\<open>undefined\<close> (\<open>None\<close>), and reading a property
  of such an entry throws a \<^verbatim>\<open>TypeError\<close>.
\<close>

record folder_to_add =
  uri_to_add :: "uri option"
  name_to_add :: "string option"

datatype error = TypeError

text \<open>
  An argument that should be a number. \<open>JSNumber\<close> and \<open>JSNaN\<close> are the values whose
  \<^verbatim>\<open>typeof\<close> is \<^verbatim>\<open>'number'\<close>: an integer, and \<^verbatim>\<open>NaN\<close>, for which every comparison is false
  and which \<^verbatim>\<open>splice\<close> reads as 0. \<open>JSOther\<close> is a value of any other type. Numbers that
  are not integers, and the infinities, are not modelled.
\<close>

datatype jsvalue = JSNumber int | JSNaN | JSOther

datatype proxy_call =
    UpdateWorkspaceFolders string jsvalue jsvalue "(uri \<times> string option) list"
  | StartSearch "string option" "string option" "string option" "nat option" nat
  | CancelSearch nat
  | SaveAll "bool option"

record change_event =
  added :: "workspace_folder list"
  removed :: "workspace_folder list"

text \<open>
  The fields of one object: \<open>proxy\<close> is the calls made on \<^verbatim>\<open>_proxy\<close> so far and
  \<open>onDidChangeWorkspace\<close> the events fired so far, oldest first. The static counter
  \<^verbatim>\<open>_requestIdPool\<close> belongs to the class, not to an object: the constructor leaves it
  alone, and \<open>findFiles\<close> below takes it and returns it.
\<close>

record ext_host =
  workspace :: "workspace2 option"
  proxy :: "proxy_call list"
  onDidChangeWorkspace :: "change_event list"

definition new_ExtHostWorkspace :: "workspace_data option \<Rightarrow> ext_host" where
  "new_ExtHostWorkspace d =
     \<lparr>workspace = fromData d, proxy = [], onDidChangeWorkspace = []\<rparr>"

definition getWorkspaceFolders :: "ext_host \<Rightarrow> workspace_folder list option" where
  "getWorkspaceFolders s =
     (case workspace s of None \<Rightarrow> None | Some w \<Rightarrow> Some (workspaceFolders w))"

text \<open>
  The guards on the two numbers: \<^verbatim>\<open>typeof i !== 'number' || i < 0\<close>,
  \<^verbatim>\<open>deleteCount === 0\<close> (written \<open>deleteCount = JSNumber 0\<close> below) and
  \<^verbatim>\<open>index + deleteCount > length\<close>; \<open>numberOf\<close> is the integer \<^verbatim>\<open>splice\<close> makes of a
  number that passed them.
\<close>

fun notNumberOrNegative :: "jsvalue \<Rightarrow> bool" where
  "notNumberOrNegative (JSNumber i) = (i < 0)"
| "notNumberOrNegative JSNaN = False"
| "notNumberOrNegative JSOther = True"

fun sumExceeds :: "jsvalue \<Rightarrow> jsvalue \<Rightarrow> nat \<Rightarrow> bool" where
  "sumExceeds (JSNumber i) (JSNumber d) n = (i + d > int n)"
| "sumExceeds i d n = False"

fun numberOf :: "jsvalue \<Rightarrow> nat" where
  "numberOf (JSNumber i) = nat i"
| "numberOf JSNaN = 0"
| "numberOf JSOther = 0"

text \<open>
  The loop over the folders to add: it stops with the \<^verbatim>\<open>TypeError\<close> at the first entry
  that is \<^verbatim>\<open>null\<close> or \<^verbatim>\<open>undefined\<close>.
\<close>

definition validatedDistinct ::
  "bool \<Rightarrow> folder_to_add option list \<Rightarrow> error + (uri \<times> string option) list" where
  "validatedDistinct linux toAdd =
     fold (\<lambda>folderToAdd acc.
             case acc of
               Inl e \<Rightarrow> Inl e
             | Inr kept \<Rightarrow>
                 (case folderToAdd of
                    None \<Rightarrow> Inl TypeError
                  | Some f \<Rightarrow>
                      (case uri_to_add f of
                         None \<Rightarrow> Inr kept
                       | Some u \<Rightarrow>
                           if list_ex (\<lambda>k. isEqual (fst k) u (\<not> linux)) kept then Inr kept
                           else Inr (kept @ [(u, name_to_add f)]))))
          toAdd (Inr [])"

definition compareWorkspaceFolderByUri :: "workspace_folder \<Rightarrow> workspace_folder \<Rightarrow> int" where
  "compareWorkspaceFolderByUri a b = compare (toString (uri a)) (toString (uri b))"

definition compareWorkspaceFolderByUriAndName :: "workspace_folder \<Rightarrow> workspace_folder \<Rightarrow> int" where
  "compareWorkspaceFolderByUriAndName a b =
     compare (toString (uri a)) (toString (uri b)) + compare (name a) (name b)"

definition foldersToInsert :: "(uri \<times> string option) list \<Rightarrow> workspace_folder list" where
  "foldersToInsert validated =
     map (\<lambda>(i, f). \<lparr>uri = fst f,
                    name = (case snd f of
                              None \<Rightarrow> basenameOrAuthority (fst f)
                            | Some n \<Rightarrow> if n = [] then basenameOrAuthority (fst f) else n),
                    index = i\<rparr>)
         (enumerate 0 validated)"

text \<open>
  \<open>currentWorkspaceFolders\<close> is the local constant of \<^verbatim>\<open>updateWorkspaceFolders\<close> of this
  name. The call throws what the loop over the folders to add throws, before anything
  else is looked at; otherwise it returns its boolean with the new state.
\<close>

definition currentWorkspaceFolders :: "ext_host \<Rightarrow> workspace_folder list" where
  "currentWorkspaceFolders s =
     (case workspace s of Some w \<Rightarrow> workspaceFolders w | None \<Rightarrow> [])"

definition updateWorkspaceFolders ::
  "platform \<Rightarrow> ext_host \<Rightarrow> string \<Rightarrow> jsvalue \<Rightarrow> jsvalue \<Rightarrow> folder_to_add option list
     \<Rightarrow> error + bool \<times> ext_host" where
  "updateWorkspaceFolders env s extensionName idx deleteCount workspaceFoldersToAdd =
     (case validatedDistinct (isLinux env) workspaceFoldersToAdd of
        Inl e \<Rightarrow> Inl e
      | Inr validated \<Rightarrow>
          Inr (if notNumberOrNegative idx \<or> notNumberOrNegative deleteCount then (False, s)
               else if deleteCount = JSNumber 0 \<and> validated = [] then (False, s)
               else if sumExceeds idx deleteCount (length (currentWorkspaceFolders s)) then (False, s)
               else
                 let new = array_splice (currentWorkspaceFolders s) (numberOf idx)
                             (numberOf deleteCount) (foldersToInsert validated);
                     (rem, add) = delta (currentWorkspaceFolders s) new
                                    compareWorkspaceFolderByUriAndName
                 in
                 if add = [] \<and> rem = [] then (False, s)
                 else
                   (True,
                    s\<lparr>proxy := proxy s @
                         [UpdateWorkspaceFolders extensionName idx deleteCount validated],
                      workspace :=
                        (case workspace s of
                           Some w \<Rightarrow> Some (trySetWorkspaceFolders w new)
                         | None \<Rightarrow> None)\<rparr>)))"

definition getWorkspaceFolder :: "platform \<Rightarrow> ext_host \<Rightarrow> uri \<Rightarrow> bool \<Rightarrow> workspace_folder option" where
  "getWorkspaceFolder env s u resolveParent =
     (case workspace s of
        None \<Rightarrow> None
      | Some w \<Rightarrow> ws_getWorkspaceFolder env w u resolveParent)"

definition getPath :: "ext_host \<Rightarrow> string option" where
  "getPath s =
     (case workspace s of
        None \<Rightarrow> None
      | Some w \<Rightarrow> (case folders w of [] \<Rightarrow> None | f # _ \<Rightarrow> Some (fsPath (uri f))))"

datatype path_or_uri = PathString string | PathUri uri | PathUndefined

text \<open>
  In \<open>getRelativePath\<close> the folder count is read from \<^verbatim>\<open>this.workspace.folders\<close>; the
  branch for an absent workspace there is never reached, since a folder was found.
\<close>

definition getRelativePath ::
  "platform \<Rightarrow> ext_host \<Rightarrow> path_or_uri \<Rightarrow> bool option \<Rightarrow> string option" where
  "getRelativePath env s pathOrUri includeWorkspace =
     (let p = (case pathOrUri of
                 PathString str \<Rightarrow> Some str
               | PathUri u \<Rightarrow> Some (fsPath u)
               | PathUndefined \<Rightarrow> None)
      in
      case p of
        None \<Rightarrow> None
      | Some str \<Rightarrow>
          if str = [] then Some str
          else
            (case getWorkspaceFolder env s
                    (case pathOrUri of PathUri u \<Rightarrow> u | _ \<Rightarrow> URI_file str) True of
               None \<Rightarrow> Some str
             | Some folder \<Rightarrow>
                 let inc = (case includeWorkspace of
                              Some b \<Rightarrow> b
                            | None \<Rightarrow> (case workspace s of
                                         Some w \<Rightarrow> length (folders w) > 1
                                       | None \<Rightarrow> False));
                     result = relative env (fsPath (uri folder)) str
                 in Some (normalize_path env (if inc then name folder @ ''/'' @ result else result))))"

definition acceptWorkspaceData :: "ext_host \<Rightarrow> workspace_data option \<Rightarrow> ext_host" where
  "acceptWorkspaceData s d =
     (let oldRoots = (case workspace s of
                        Some w \<Rightarrow> sort_by compareWorkspaceFolderByUri (workspaceFolders w)
                      | None \<Rightarrow> []);
          w' = fromData d;
          newRoots = (case w' of
                        Some w \<Rightarrow> sort_by compareWorkspaceFolderByUri (workspaceFolders w)
                      | None \<Rightarrow> []);
          (rem, add) = delta oldRoots newRoots compareWorkspaceFolderByUri
      in s\<lparr>workspace := w',
           onDidChangeWorkspace := onDidChangeWorkspace s @ [\<lparr>added = add, removed = rem\<rparr>]\<rparr>)"

text \<open>
  The static counter \<^verbatim>\<open>_requestIdPool\<close> is a JavaScript number that starts at 0 and is
  only ever incremented. It counts exactly up to \<open>2 ^ 53\<close>, where adding 1 gives the same
  number again.
\<close>

definition requestIdLimit :: nat where
  "requestIdLimit = 2 ^ 53"

definition incremented :: "nat \<Rightarrow> nat" where
  "incremented n = (if n < requestIdLimit then n + 1 else n)"

text \<open>
  \<open>findFiles\<close> takes the static counter with the object, and returns the request
  identifier it used, the counter and the object. A cancellation token, when given, only
  registers a callback; \<open>cancellationRequested\<close> is that callback running for a request.
\<close>

definition truthy :: "glob_pattern option \<Rightarrow> bool" where
  "truthy g = (case g of None \<Rightarrow> False | Some (GlobString str) \<Rightarrow> str \<noteq> [] | Some (RelativePattern b pat) \<Rightarrow> True)"

definition findFiles ::
  "nat \<Rightarrow> ext_host \<Rightarrow> glob_pattern option \<Rightarrow> glob_pattern option \<Rightarrow> nat option
     \<Rightarrow> nat \<times> nat \<times> ext_host" where
  "findFiles requestIdPool s include exclude maxResults =
     (let requestId = requestIdPool;
          includePattern = (case include of
                              Some (GlobString str) \<Rightarrow> if truthy include then Some str else None
                            | Some (RelativePattern b pat) \<Rightarrow> Some pat
                            | None \<Rightarrow> None);
          includeFolder = (case include of Some (RelativePattern b pat) \<Rightarrow> Some b | _ \<Rightarrow> None);
          excludePattern = (case exclude of
                              Some (GlobString str) \<Rightarrow> if truthy exclude then Some str else None
                            | Some (RelativePattern b pat) \<Rightarrow> Some pat
                            | None \<Rightarrow> None)
      in (requestId, incremented requestIdPool,
          s\<lparr>proxy := proxy s @
              [StartSearch includePattern includeFolder excludePattern maxResults requestId]\<rparr>))"

definition cancellationRequested :: "ext_host \<Rightarrow> nat \<Rightarrow> ext_host" where
  "cancellationRequested s requestId = s\<lparr>proxy := proxy s @ [CancelSearch requestId]\<rparr>"

definition saveAll :: "ext_host \<Rightarrow> bool option \<Rightarrow> ext_host" where
  "saveAll s includeUntitled = s\<lparr>proxy := proxy s @ [SaveAll includeUntitled]\<rparr>"

subsection \<open>The process and its sequences of calls\<close>

text \<open>
  The calls a host can make on an object, and a promise of \<^verbatim>\<open>findFiles\<close> settling
  (\<open>SearchCompleted\<close>, which changes nothing). A call that throws leaves the object as it
  was. \<open>step\<close> is one call on an object, given the static counter.
\<close>

datatype operation =
    OpFindFiles "glob_pattern option" "glob_pattern option" "nat option"
  | OpCancellationRequested nat
  | OpSearchCompleted nat
  | OpSaveAll "bool option"
  | OpUpdateWorkspaceFolders string jsvalue jsvalue "folder_to_add option list"
  | OpAcceptWorkspaceData "workspace_data option"

fun step :: "platform \<Rightarrow> nat \<Rightarrow> ext_host \<Rightarrow> operation \<Rightarrow> nat \<times> ext_host" where
  "step env pool s (OpFindFiles include exclude maxResults) =
     snd (findFiles pool s include exclude maxResults)"
| "step env pool s (OpCancellationRequested requestId) = (pool, cancellationRequested s requestId)"
| "step env pool s (OpSearchCompleted requestId) = (pool, s)"
| "step env pool s (OpSaveAll includeUntitled) = (pool, saveAll s includeUntitled)"
| "step env pool s (OpUpdateWorkspaceFolders ext idx deleteCount toAdd) =
     (case updateWorkspaceFolders env s ext idx deleteCount toAdd of
        Inl e \<Rightarrow> (pool, s)
      | Inr r \<Rightarrow> (pool, snd r))"
| "step env pool s (OpAcceptWorkspaceData d) = (pool, acceptWorkspaceData s d)"

text \<open>
  The process: the one static counter of the class, which is 0 when the class is loaded,
  and the objects constructed so far. An event of the process constructs an object or
  makes a call on the object of a given number (nothing happens for a number that no
  object has). \<open>calls_of_run\<close> lists the calls sent to the main thread during a run,
  in the order they are sent, whichever object sends them.
\<close>

record process =
  requestIdPool :: nat
  objects :: "ext_host list"

definition process_start :: process where
  "process_start = \<lparr>requestIdPool = 0, objects = []\<rparr>"

datatype process_event = New "workspace_data option" | Call nat operation

fun step_process :: "platform \<Rightarrow> process \<Rightarrow> process_event \<Rightarrow> process" where
  "step_process env P (New d) = P\<lparr>objects := objects P @ [new_ExtHostWorkspace d]\<rparr>"
| "step_process env P (Call i op) =
     (if i < length (objects P)
      then \<lparr>requestIdPool = fst (step env (requestIdPool P) (objects P ! i) op),
            objects = (objects P)[i := snd (step env (requestIdPool P) (objects P ! i) op)]\<rparr>
      else P)"

fun calls_of_step :: "platform \<Rightarrow> process \<Rightarrow> process_event \<Rightarrow> proxy_call list" where
  "calls_of_step env P (New d) = []"
| "calls_of_step env P (Call i op) =
     (if i < length (objects P)
      then drop (length (proxy (objects P ! i)))
             (proxy (snd (step env (requestIdPool P) (objects P ! i) op)))
      else [])"

definition run_process :: "platform \<Rightarrow> process \<Rightarrow> process_event list \<Rightarrow> process" where
  "run_process env P events = foldl (step_process env) P events"

fun calls_of_run :: "platform \<Rightarrow> process \<Rightarrow> process_event list \<Rightarrow> proxy_call list" where
  "calls_of_run env P [] = []"
| "calls_of_run env P (e # events) =
     calls_of_step env P e @ calls_of_run env (step_process env P e) events"

fun isFindFiles :: "operation \<Rightarrow> bool" where
  "isFindFiles (OpFindFiles include exclude maxResults) = True"
| "isFindFiles other = False"

text \<open>
  The number of \<open>findFiles\<close> calls among the events of a run that starts with \<open>n\<close>
  objects.
\<close>

fun searches :: "nat \<Rightarrow> process_event list \<Rightarrow> nat" where
  "searches n [] = 0"
| "searches n (New d # events) = searches (Suc n) events"
| "searches n (Call i op # events) =
     (if i < n \<and> isFindFiles op then 1 else 0) + searches n events"

fun searchRequestIds :: "proxy_call list \<Rightarrow> nat list" where
  "searchRequestIds [] = []"
| "searchRequestIds (StartSearch inc fld exc mx requestId # calls) = requestId # searchRequestIds calls"
| "searchRequestIds (other # calls) = searchRequestIds calls"

subsection \<open>A concrete platform and example workspaces\<close>

text \<open>
  Modelled from the spec: the path primitives are external to the source (the spec lists
  "path-normalization primitives" among the collaborators). For the examples they are read
  on a Linux platform with the root as working directory: \<open>posix_dirname\<close> cuts the last
  segment off as Node's \<^verbatim>\<open>path.dirname\<close> does, \<open>posix_relative\<close> walks from one resolved
  path to the other, and \<open>posix_normalize\<close> drops the empty and \<^verbatim>\<open>.\<close> segments and
  resolves the \<^verbatim>\<open>..\<close> segments.
\<close>

definition posix_dirname :: "string \<Rightarrow> string" where
  "posix_dirname p =
     (if p = [] then ''.''
      else
        let hasRoot = (hd p = CHR ''/'');
            r = dropWhile (\<lambda>c. c \<noteq> CHR ''/'') (dropWhile (\<lambda>c. c = CHR ''/'') (rev (tl p)))
        in if r = [] then (if hasRoot then ''/'' else ''.'')
           else if hasRoot \<and> length r = 1 then ''//''
           else take (length r) p)"

fun resolve_segments :: "string list \<Rightarrow> string list \<Rightarrow> string list" where
  "resolve_segments acc [] = acc"
| "resolve_segments acc (x # xs) =
     (if x = ''.'' then resolve_segments acc xs
      else if x = ''..'' then resolve_segments (butlast acc) xs
      else resolve_segments (acc @ [x]) xs)"

fun join_segments :: "string list \<Rightarrow> string" where
  "join_segments [] = []"
| "join_segments [x] = x"
| "join_segments (x # y # ys) = x @ ''/'' @ join_segments (y # ys)"

fun common_prefix_length :: "'a list \<Rightarrow> 'a list \<Rightarrow> nat" where
  "common_prefix_length (x # xs) (y # ys) = (if x = y then Suc (common_prefix_length xs ys) else 0)"
| "common_prefix_length xs ys = 0"

definition posix_resolve :: "string \<Rightarrow> string list" where
  "posix_resolve p = resolve_segments [] (split_on (\<lambda>c. c = CHR ''/'') [] p)"

definition posix_relative :: "string \<Rightarrow> string \<Rightarrow> string" where
  "posix_relative from to =
     (let f = posix_resolve from; t = posix_resolve to; n = common_prefix_length f t
      in join_segments (replicate (length f - n) ''..'' @ drop n t))"

fun normalize_segments :: "bool \<Rightarrow> string list \<Rightarrow> string list \<Rightarrow> string list" where
  "normalize_segments rooted acc [] = acc"
| "normalize_segments rooted acc (x # xs) =
     (if x = ''.'' then normalize_segments rooted acc xs
      else if x = ''..'' then
        (if acc \<noteq> [] \<and> last acc \<noteq> ''..'' then normalize_segments rooted (butlast acc) xs
         else if rooted then normalize_segments rooted acc xs
         else normalize_segments rooted (acc @ [x]) xs)
      else normalize_segments rooted (acc @ [x]) xs)"

definition posix_normalize :: "string \<Rightarrow> string" where
  "posix_normalize p =
     (let rooted = (take 1 p = ''/'');
          res = join_segments (normalize_segments rooted [] (split_on (\<lambda>c. c = CHR ''/'') [] p))
      in if rooted then CHR ''/'' # res else if res = [] then ''.'' else res)"

definition posix :: platform where
  "posix = \<lparr>isLinux = True, dirname = posix_dirname, relative = posix_relative,
            normalize_path = posix_normalize\<rparr>"

definition folder_a :: workspace_folder where
  "folder_a = \<lparr>uri = URI_file ''/a'', name = ''a'', index = 0\<rparr>"

definition folder_x :: workspace_folder where
  "folder_x = \<lparr>uri = URI_file ''/x'', name = ''x'', index = 1\<rparr>"

definition data_of :: "workspace_folder list \<Rightarrow> workspace_data option" where
  "data_of fs = Some \<lparr>data_id = ''id'', data_name = ''workspace'', data_folders = fs\<rparr>"

definition to_add :: "string \<Rightarrow> folder_to_add option" where
  "to_add p = Some \<lparr>uri_to_add = Some (URI_file p), name_to_add = None\<rparr>"

definition folder_b :: workspace_folder where
  "folder_b = \<lparr>uri = URI_file ''/b'', name = ''b'', index = 0\<rparr>"

definition folder_xb :: workspace_folder where
  "folder_xb = \<lparr>uri = URI_file ''/x/b'', name = ''b'', index = 0\<rparr>"

definition folder_ya :: workspace_folder where
  "folder_ya = \<lparr>uri = URI_file ''/y/a'', name = ''a'', index = 0\<rparr>"

subsection \<open>Definitions for stating the properties\<close>

text \<open>
  Removing duplicates "keeping first occurrence", as the spec words it: an entry stays,
  and the later entries equal to it go. \<open>validated_entries\<close> are the entries whose
  \<open>uri\<close> is a URI, and \<open>same_uri\<close> is the equality of identifiers on the platform.
\<close>

fun keep_first :: "('a \<Rightarrow> 'a \<Rightarrow> bool) \<Rightarrow> 'a list \<Rightarrow> 'a list" where
  "keep_first eq [] = []"
| "keep_first eq (x # xs) = x # keep_first eq (filter (\<lambda>y. \<not> eq x y) xs)"

definition validated_entries :: "folder_to_add option list \<Rightarrow> (uri \<times> string option) list" where
  "validated_entries toAdd =
     List.map_filter
       (\<lambda>entry. case entry of
                   None \<Rightarrow> None
                 | Some f \<Rightarrow> map_option (\<lambda>u. (u, name_to_add f)) (uri_to_add f))
       toAdd"

definition same_uri :: "bool \<Rightarrow> uri \<times> string option \<Rightarrow> uri \<times> string option \<Rightarrow> bool" where
  "same_uri linux a b = isEqual (fst a) (fst b) (\<not> linux)"

text \<open>
  The validated folders of a call whose loop does not throw, and with them the local
  constant \<open>newWorkspaceFolders\<close> of \<^verbatim>\<open>updateWorkspaceFolders\<close>, the prospective list.
  \<open>accepted\<close> is the state after a call that returned \<open>True\<close>.
\<close>

definition validatedFoldersToAdd ::
  "platform \<Rightarrow> folder_to_add option list \<Rightarrow> (uri \<times> string option) list" where
  "validatedFoldersToAdd env toAdd =
     (case validatedDistinct (isLinux env) toAdd of Inr validated \<Rightarrow> validated | Inl e \<Rightarrow> [])"

definition newWorkspaceFolders ::
  "platform \<Rightarrow> ext_host \<Rightarrow> jsvalue \<Rightarrow> jsvalue \<Rightarrow> folder_to_add option list \<Rightarrow> workspace_folder list" where
  "newWorkspaceFolders env s idx deleteCount workspaceFoldersToAdd =
     array_splice (currentWorkspaceFolders s) (numberOf idx) (numberOf deleteCount)
       (foldersToInsert (validatedFoldersToAdd env workspaceFoldersToAdd))"

definition accepted :: "error + bool \<times> ext_host \<Rightarrow> ext_host option" where
  "accepted r = (case r of Inr (True, s') \<Rightarrow> Some s' | _ \<Rightarrow> None)"

text \<open>The example platform with a file system that ignores case.\<close>

definition darwin :: platform where
  "darwin = posix\<lparr>isLinux := False\<rparr>"

text \<open>
  The string form of a folder's identifier, and the identifiers of the folders of a
  snapshot, in order.
\<close>

definition folder_id :: "workspace_folder \<Rightarrow> string" where
  "folder_id f = toString (uri f)"

definition identifiers :: "workspace_data option \<Rightarrow> string list" where
  "identifiers d = (case d of None \<Rightarrow> [] | Some d' \<Rightarrow> map folder_id (data_folders d'))"

text \<open>
  The key of a folder in the containment index, and what it is for a lookup result to be
  the owner of a query key among the folders \<open>fs\<close>: nothing, when no folder's key is an
  ancestor of the query or equal to it; otherwise a folder whose key is, and no other such
  folder has a longer key.
\<close>

definition folder_key :: "workspace_folder \<Rightarrow> string list" where
  "folder_key f = segments (folder_id f)"



section \<open>Properties\<close>

subsection \<open>Auxiliary facts\<close>

lemma new_WorkspaceFolder_ident: "new_WorkspaceFolder f = f"
  by (simp add: new_WorkspaceFolder_def)

lemma map_new_WorkspaceFolder: "map new_WorkspaceFolder fs = fs"
  by (induction fs) (simp_all add: new_WorkspaceFolder_ident)

lemma compare_refl: "compare a a = 0"
  by (simp add: compare_def)

lemma delta_empty_iff:
  "delta xs ys cmp = ([], []) \<longleftrightarrow> list_all2 (\<lambda>x y. cmp x y = 0) xs ys"
  by (induction xs ys cmp rule: delta.induct) (auto simp: Let_def split: prod.splits)

lemma delta_same: "(\<And>x. cmp x x = 0) \<Longrightarrow> delta xs xs cmp = ([], [])"
  by (simp add: delta_empty_iff list_all2_same)

lemma set_keep_first_subset: "set (keep_first eq xs) \<subseteq> set xs"
proof (induction eq xs rule: keep_first.induct)
  case (1 eq)
  show ?case by simp
next
  case (2 eq x xs)
  have "set (filter (\<lambda>y. \<not> eq x y) xs) \<subseteq> set xs" by simp
  with 2 have "set (keep_first eq (filter (\<lambda>y. \<not> eq x y) xs)) \<subseteq> set xs"
    by (rule subset_trans)
  then show ?case by (simp add: subset_insertI2)
qed

lemma keep_first_pairwise: "sorted_wrt (\<lambda>a b. \<not> eq a b) (keep_first eq xs)"
proof (induction eq xs rule: keep_first.induct)
  case (1 eq)
  show ?case by simp
next
  case (2 eq x xs)
  have "\<forall>y \<in> set (keep_first eq (filter (\<lambda>y. \<not> eq x y) xs)). \<not> eq x y"
    using set_keep_first_subset [of eq "filter (\<lambda>y. \<not> eq x y) xs"] by auto
  with 2 show ?case by (simp only: keep_first.simps sorted_wrt.simps)
qed

lemma keep_first_covers:
  assumes "\<And>a. eq a a" and "e \<in> set xs"
  shows "\<exists>k \<in> set (keep_first eq xs). eq k e"
  using assms
proof (induction eq xs rule: keep_first.induct)
  case (1 eq)
  then show ?case by simp
next
  case (2 eq x xs)
  show ?case
  proof (cases "eq x e")
    case True
    then show ?thesis by (simp only: keep_first.simps) auto
  next
    case False
    with "2.prems" have "e \<in> set (filter (\<lambda>y. \<not> eq x y) xs)"
      by auto
    from "2.IH" [OF "2.prems"(1) this] show ?thesis
      by (simp only: keep_first.simps) auto
  qed
qed

lemma keep_first_subseq: "subseq (keep_first eq xs) xs"
proof (induction eq xs rule: keep_first.induct)
  case (1 eq)
  show ?case by simp
next
  case (2 eq x xs)
  have "subseq (filter (\<lambda>y. \<not> eq x y) xs) xs" by simp
  with 2 have "subseq (keep_first eq (filter (\<lambda>y. \<not> eq x y) xs)) xs"
    by (rule subseq_order.order_trans)
  then show ?case by simp
qed

lemma isEqual_refl: "isEqual a a ic"
  by (simp add: isEqual_def equalsIgnoreCase_def)

lemma validated_entries_Cons:
  "validated_entries (x # xs) =
     (case x of
        None \<Rightarrow> validated_entries xs
      | Some f \<Rightarrow> (case uri_to_add f of
                     None \<Rightarrow> validated_entries xs
                   | Some u \<Rightarrow> (u, name_to_add f) # validated_entries xs))"
  by (simp add: validated_entries_def map_filter_simps split: option.splits)

text \<open>The loop over the folders to add: what it throws, and what it keeps.\<close>

lemma validated_fold_thrown:
  "fold (\<lambda>folderToAdd acc.
             case acc of
               Inl e \<Rightarrow> Inl e
             | Inr kept \<Rightarrow>
                 (case folderToAdd of
                    None \<Rightarrow> Inl TypeError
                  | Some f \<Rightarrow>
                      (case uri_to_add f of
                         None \<Rightarrow> Inr kept
                       | Some u \<Rightarrow>
                           if list_ex (\<lambda>k. isEqual (fst k) u (\<not> linux)) kept then Inr kept
                           else Inr (kept @ [(u, name_to_add f)]))))
          toAdd (Inl e) = Inl e"
  by (induction toAdd) simp_all

lemma validated_fold:
  "fold (\<lambda>folderToAdd acc.
             case acc of
               Inl e \<Rightarrow> Inl e
             | Inr kept \<Rightarrow>
                 (case folderToAdd of
                    None \<Rightarrow> Inl TypeError
                  | Some f \<Rightarrow>
                      (case uri_to_add f of
                         None \<Rightarrow> Inr kept
                       | Some u \<Rightarrow>
                           if list_ex (\<lambda>k. isEqual (fst k) u (\<not> linux)) kept then Inr kept
                           else Inr (kept @ [(u, name_to_add f)]))))
          toAdd (Inr acc) =
   (if None \<in> set toAdd then Inl TypeError
    else Inr (acc @ keep_first (same_uri linux)
           (filter (\<lambda>y. \<not> list_ex (\<lambda>a. same_uri linux a y) acc) (validated_entries toAdd))))"
proof (induction toAdd arbitrary: acc)
  case Nil
  show ?case by (simp add: validated_entries_def map_filter_simps)
next
  case (Cons x xs)
  show ?case
  proof (cases x)
    case None
    then show ?thesis by (simp add: validated_fold_thrown)
  next
    case (Some f)
    note x = Some
    show ?thesis
    proof (cases "uri_to_add f")
      case None
      with x show ?thesis
        using Cons.IH [of acc] by (simp add: validated_entries_Cons)
    next
      case (Some u)
      show ?thesis
      proof (cases "list_ex (\<lambda>k. isEqual (fst k) u (\<not> linux)) acc")
        case True
        then have ex: "list_ex (\<lambda>a. same_uri linux a (u, name_to_add f)) acc"
          by (simp add: same_uri_def)
        from True x Some show ?thesis
          using Cons.IH [of acc] ex by (simp add: validated_entries_Cons)
      next
        case False
        have f: "filter (\<lambda>y. \<not> list_ex (\<lambda>a. same_uri linux a y) (acc @ [(u, name_to_add f)])) ys =
                 filter (\<lambda>y. \<not> same_uri linux (u, name_to_add f) y)
                   (filter (\<lambda>y. \<not> list_ex (\<lambda>a. same_uri linux a y) acc) ys)" for ys
          by (induction ys) (auto simp: list_ex_iff)
        from False have nex: "\<not> list_ex (\<lambda>a. same_uri linux a (u, name_to_add f)) acc"
          by (simp add: same_uri_def)
        show ?thesis
        proof (cases "None \<in> set xs")
          case True
          with x Some False show ?thesis
            using Cons.IH [of "acc @ [(u, name_to_add f)]"] by simp
        next
          case notin: False
          with x Some False show ?thesis
            using Cons.IH [of "acc @ [(u, name_to_add f)]"] nex
            by (simp add: validated_entries_Cons f)
        qed
      qed
    qed
  qed
qed

lemma validatedDistinct_keep_first:
  "validatedDistinct linux toAdd =
     (if None \<in> set toAdd then Inl TypeError
      else Inr (keep_first (same_uri linux) (validated_entries toAdd)))"
  using validated_fold [of linux toAdd "[]"] by (simp add: validatedDistinct_def)

lemma validatedFoldersToAdd_keep_first:
  "None \<notin> set toAdd \<Longrightarrow>
   validatedFoldersToAdd env toAdd = keep_first (same_uri (isLinux env)) (validated_entries toAdd)"
  by (simp add: validatedFoldersToAdd_def validatedDistinct_keep_first)

lemma validatedDistinct_Inr:
  "validatedDistinct (isLinux env) toAdd = Inr validated \<longleftrightarrow>
     None \<notin> set toAdd \<and> validated = validatedFoldersToAdd env toAdd"
  by (auto simp: validatedFoldersToAdd_def validatedDistinct_keep_first)

lemma validatedDistinct_Inl:
  "validatedDistinct linux toAdd = Inl e \<longleftrightarrow> None \<in> set toAdd"
  by (cases e) (simp add: validatedDistinct_keep_first)

text \<open>The throw, the guards of \<open>updateWorkspaceFolders\<close> and its one accepting exit.\<close>

lemma updateWorkspaceFolders_unfold:
  "updateWorkspaceFolders env s ext idx dc toAdd =
     (if None \<in> set toAdd then Inl TypeError
      else Inr
        (if notNumberOrNegative idx \<or> notNumberOrNegative dc
            \<or> (dc = JSNumber 0 \<and> validatedFoldersToAdd env toAdd = [])
            \<or> sumExceeds idx dc (length (currentWorkspaceFolders s))
            \<or> delta (currentWorkspaceFolders s) (newWorkspaceFolders env s idx dc toAdd)
                 compareWorkspaceFolderByUriAndName = ([], [])
         then (False, s)
         else (True,
               s\<lparr>proxy := proxy s @
                    [UpdateWorkspaceFolders ext idx dc (validatedFoldersToAdd env toAdd)],
                 workspace := map_option (\<lambda>w. trySetWorkspaceFolders w (newWorkspaceFolders env s idx dc toAdd))
                                (workspace s)\<rparr>)))"
proof (cases "None \<in> set toAdd")
  case True
  then show ?thesis
    by (simp add: updateWorkspaceFolders_def validatedDistinct_keep_first)
next
  case False
  then have v: "validatedDistinct (isLinux env) toAdd = Inr (validatedFoldersToAdd env toAdd)"
    by (simp add: validatedDistinct_Inr)
  from False show ?thesis
    by (auto simp: updateWorkspaceFolders_def v newWorkspaceFolders_def Let_def map_option_case
          split: prod.splits option.splits)
qed

lemma accepted_state:
  assumes "updateWorkspaceFolders env s ext idx dc toAdd = Inr (True, s')"
  shows "s' = s\<lparr>proxy := proxy s @
                 [UpdateWorkspaceFolders ext idx dc (validatedFoldersToAdd env toAdd)],
              workspace := map_option (\<lambda>w. trySetWorkspaceFolders w (newWorkspaceFolders env s idx dc toAdd))
                             (workspace s)\<rparr>"
    and "delta (currentWorkspaceFolders s) (newWorkspaceFolders env s idx dc toAdd)
              compareWorkspaceFolderByUriAndName \<noteq> ([], [])"
    and "None \<notin> set toAdd"
  using assms by (auto simp: updateWorkspaceFolders_unfold split: if_splits)

lemma accepted_iff: "accepted r = Some s' \<longleftrightarrow> r = Inr (True, s')"
  by (auto simp: accepted_def split: sum.splits bool.splits prod.splits)

lemma searchRequestIds_append:
  "searchRequestIds (xs @ ys) = searchRequestIds xs @ searchRequestIds ys"
  by (induction xs rule: searchRequestIds.induct) simp_all

lemma findFiles_requestId:
  "fst (findFiles pool s inc exc mx) = pool"
  "fst (snd (findFiles pool s inc exc mx)) = incremented pool"
  "\<exists>call. proxy (snd (snd (findFiles pool s inc exc mx))) = proxy s @ [call]
      \<and> searchRequestIds [call] = [pool]"
  by (simp_all add: findFiles_def Let_def)

lemma step_calls:
  "\<exists>new. proxy (snd (step env pool s op)) = proxy s @ new
      \<and> searchRequestIds new = (if isFindFiles op then [pool] else [])"
proof (cases op)
  case (OpFindFiles inc exc mx)
  then show ?thesis
    using findFiles_requestId(3) [of pool s inc exc mx] by auto
next
  case (OpUpdateWorkspaceFolders ext idx dc toAdd)
  have "proxy (snd (step env pool s op)) = proxy s
        \<or> proxy (snd (step env pool s op)) =
            proxy s @ [UpdateWorkspaceFolders ext idx dc (validatedFoldersToAdd env toAdd)]"
    by (simp add: OpUpdateWorkspaceFolders updateWorkspaceFolders_unfold)
  then show ?thesis
    using OpUpdateWorkspaceFolders by auto
qed (simp_all add: cancellationRequested_def saveAll_def acceptWorkspaceData_def Let_def
       case_prod_beta)

lemma step_pool:
  "fst (step env pool s op) = (if isFindFiles op then incremented pool else pool)"
  by (cases op) (simp_all add: findFiles_requestId split: sum.splits)

lemma calls_of_step_ids:
  "searchRequestIds (calls_of_step env P e) =
     (case e of
        New d \<Rightarrow> []
      | Call i op \<Rightarrow> if i < length (objects P) \<and> isFindFiles op then [requestIdPool P] else [])"
proof (cases e)
  case (New d)
  then show ?thesis by simp
next
  case (Call i op)
  obtain new where "proxy (snd (step env (requestIdPool P) (objects P ! i) op)) =
        proxy (objects P ! i) @ new"
      "searchRequestIds new = (if isFindFiles op then [requestIdPool P] else [])"
    using step_calls [of env "requestIdPool P" "objects P ! i" op] by blast
  with Call show ?thesis by simp
qed

lemma step_process_pool:
  "requestIdPool (step_process env P e) =
     (case e of
        New d \<Rightarrow> requestIdPool P
      | Call i op \<Rightarrow> if i < length (objects P) \<and> isFindFiles op
                     then incremented (requestIdPool P) else requestIdPool P)"
  by (cases e) (simp_all add: step_pool)

lemma step_process_objects:
  "length (objects (step_process env P e)) =
     (case e of New d \<Rightarrow> Suc (length (objects P)) | Call i op \<Rightarrow> length (objects P))"
  by (cases e) simp_all

lemma step_process_objects_le:
  "length (objects P) \<le> length (objects (step_process env P e))"
  by (cases e) simp_all

lemma run_process_Cons:
  "run_process env P (e # events) = run_process env (step_process env P e) events"
  by (simp add: run_process_def)

lemma run_process_append:
  "run_process env P (xs @ ys) = run_process env (run_process env P xs) ys"
  by (simp add: run_process_def)

lemma calls_of_run_append:
  "calls_of_run env P (xs @ ys) =
     calls_of_run env P xs @ calls_of_run env (run_process env P xs) ys"
  by (induction xs arbitrary: P) (simp_all add: run_process_def)

lemma step_process_search:
  assumes "i < length (objects P)" and "isFindFiles op" and "requestIdPool P < requestIdLimit"
  shows "searchRequestIds (calls_of_step env P (Call i op)) = [requestIdPool P]"
    and "requestIdPool (step_process env P (Call i op)) = Suc (requestIdPool P)"
    and "length (objects (step_process env P (Call i op))) = length (objects P)"
proof -
  show "searchRequestIds (calls_of_step env P (Call i op)) = [requestIdPool P]"
    using calls_of_step_ids [of env P "Call i op"] assms(1,2) by simp
  show "requestIdPool (step_process env P (Call i op)) = Suc (requestIdPool P)"
    using step_process_pool [of env P "Call i op"] assms by (simp add: incremented_def)
  show "length (objects (step_process env P (Call i op))) = length (objects P)"
    using step_process_objects [of env P "Call i op"] by simp
qed

lemma step_process_other:
  assumes "\<not> (\<exists>i op. e = Call i op \<and> i < length (objects P) \<and> isFindFiles op)"
  shows "searchRequestIds (calls_of_step env P e) = []"
    and "requestIdPool (step_process env P e) = requestIdPool P"
    and "searches (length (objects P)) (e # events) =
           searches (length (objects (step_process env P e))) events"
proof -
  show "searchRequestIds (calls_of_step env P e) = []"
  proof (cases e)
    case (New d)
    then show ?thesis by simp
  next
    case (Call i op)
    with assms have "\<not> (i < length (objects P) \<and> isFindFiles op)" by blast
    with Call calls_of_step_ids [of env P e] show ?thesis by simp
  qed
  show "requestIdPool (step_process env P e) = requestIdPool P"
  proof (cases e)
    case (New d)
    then show ?thesis by simp
  next
    case (Call i op)
    with assms have "\<not> (i < length (objects P) \<and> isFindFiles op)" by blast
    with Call step_process_pool [of env P e] show ?thesis by simp
  qed
  show "searches (length (objects P)) (e # events) =
           searches (length (objects (step_process env P e))) events"
  proof (cases e)
    case (New d)
    then show ?thesis by simp
  next
    case (Call i op)
    with assms have n: "\<not> (i < length (objects P) \<and> isFindFiles op)" by blast
    have "length (objects (step_process env P e)) = length (objects P)"
      using step_process_objects [of env P e] Call by simp
    with Call n show ?thesis by simp
  qed
qed

lemma run_requestIds:
  "requestIdPool P + searches (length (objects P)) events \<le> requestIdLimit \<Longrightarrow>
   searchRequestIds (calls_of_run env P events) =
       [requestIdPool P ..< requestIdPool P + searches (length (objects P)) events]
   \<and> requestIdPool (run_process env P events) =
       requestIdPool P + searches (length (objects P)) events
   \<and> length (objects P) \<le> length (objects (run_process env P events))"
proof (induction events arbitrary: P)
  case Nil
  show ?case by (simp add: run_process_def)
next
  case (Cons e events)
  define P' where "P' = step_process env P e"
  have unfold: "calls_of_run env P (e # events) = calls_of_step env P e @ calls_of_run env P' events"
    "run_process env P (e # events) = run_process env P' events"
    by (simp_all only: P'_def run_process_Cons calls_of_run.simps)
  show ?case
  proof (cases "\<exists>i op. e = Call i op \<and> i < length (objects P) \<and> isFindFiles op")
    case True
    then obtain i op where e: "e = Call i op" "i < length (objects P)" "isFindFiles op"
      by blast
    have se: "searches (length (objects P)) (e # events) =
                Suc (searches (length (objects P)) events)"
      using e by simp
    with Cons.prems have lt: "requestIdPool P < requestIdLimit"
      by linarith
    note st = step_process_search [OF e(2,3) lt, of env, folded e(1), folded P'_def]
    have "requestIdPool P' + searches (length (objects P')) events \<le> requestIdLimit"
      unfolding st using Cons.prems se by linarith
    from Cons.IH [OF this]
    have ih: "searchRequestIds (calls_of_run env P' events) =
        [Suc (requestIdPool P) ..< Suc (requestIdPool P) + searches (length (objects P)) events]"
      "requestIdPool (run_process env P' events) =
        Suc (requestIdPool P) + searches (length (objects P)) events"
      "length (objects P) \<le> length (objects (run_process env P' events))"
      by (simp_all only: st)
    have a: "[requestIdPool P ..< requestIdPool P + Suc n] =
               requestIdPool P # [Suc (requestIdPool P) ..< Suc (requestIdPool P) + n]" for n
    proof -
      have "requestIdPool P < requestIdPool P + Suc n" by simp
      from upt_conv_Cons [OF this] show ?thesis by (simp only: add_Suc_right add_Suc)
    qed
    have "searchRequestIds (calls_of_run env P (e # events)) =
        [requestIdPool P ..< requestIdPool P + searches (length (objects P)) (e # events)]"
      by (simp only: unfold se searchRequestIds_append st ih a append_Cons append_Nil)
    moreover have "requestIdPool (run_process env P (e # events)) =
        requestIdPool P + searches (length (objects P)) (e # events)"
      by (simp only: unfold se ih add_Suc_right add_Suc)
    moreover have "length (objects P) \<le> length (objects (run_process env P (e # events)))"
      by (simp only: unfold ih)
    ultimately show ?thesis by blast
  next
    case False
    note st = step_process_other(1) [OF False, where env = env, folded P'_def]
      step_process_other(2) [OF False, where env = env, folded P'_def]
      step_process_other(3) [OF False, where env = env and events = events, folded P'_def]
    have len: "length (objects P) \<le> length (objects P')"
      by (simp only: P'_def step_process_objects_le)
    from Cons.prems st
    have "requestIdPool P' + searches (length (objects P')) events \<le> requestIdLimit"
      by (simp only: st)
    from Cons.IH [OF this]
    have ih: "searchRequestIds (calls_of_run env P' events) =
        [requestIdPool P ..< requestIdPool P + searches (length (objects P')) events]"
      "requestIdPool (run_process env P' events) =
        requestIdPool P + searches (length (objects P')) events"
      "length (objects P') \<le> length (objects (run_process env P' events))"
      by (simp_all only: st)
    have "searchRequestIds (calls_of_run env P (e # events)) =
        [requestIdPool P ..< requestIdPool P + searches (length (objects P)) (e # events)]"
      by (simp only: unfold st(3) searchRequestIds_append st(1) ih append_Nil)
    moreover have "requestIdPool (run_process env P (e # events)) =
        requestIdPool P + searches (length (objects P)) (e # events)"
      by (simp only: unfold st(3) ih)
    moreover have "length (objects P) \<le> length (objects (run_process env P (e # events)))"
      using len ih(3) by (simp only: unfold)
    ultimately show ?thesis by blast
  qed
qed

lemma searches_replicate:
  "0 < n \<Longrightarrow> searches n (replicate k (Call 0 (OpFindFiles inc exc mx))) = k"
  by (induction k) simp_all

subsection \<open>Search request identifiers\<close>

text \<open>
  Claim C10 (as amended). Take any run of the process: objects are constructed and calls
  are made on them, \<open>findFiles\<close> among cancellations, completions and the other calls. As
  long as the static counter stays within \<open>2 ^ 53\<close>, the request identifiers that the
  \<open>findFiles\<close> calls of the run forward to \<^verbatim>\<open>$startSearch\<close>, taken in the order of the
  calls and whichever object makes them, are the successive values of the one counter:
  \<open>N\<close> calls in a run that starts with the counter at \<open>c\<close> send \<open>c\<close>, ..., \<open>c + N - 1\<close>,
  strictly increasing and never repeated, and leave the counter at \<open>c + N\<close>.
\<close>

theorem findFiles_requestIds_increasing:
  assumes "requestIdPool P + searches (length (objects P)) events \<le> requestIdLimit"
  shows "searchRequestIds (calls_of_run env P events) =
           [requestIdPool P ..< requestIdPool P + searches (length (objects P)) events]
       \<and> sorted_wrt (<) (searchRequestIds (calls_of_run env P events))
       \<and> distinct (searchRequestIds (calls_of_run env P events))
       \<and> requestIdPool (run_process env P events) =
           requestIdPool P + searches (length (objects P)) events"
  using run_requestIds [OF assms, of env] by simp

theorem findFiles_requestIds_increasing_witness:
  "searchRequestIds (calls_of_run posix process_start
     [New None, Call 0 (OpFindFiles None None None), New (data_of [folder_a]),
      Call 1 (OpFindFiles (Some (GlobString ''*.ts'')) None (Some 10)),
      Call 0 (OpCancellationRequested 0), Call 0 (OpSearchCompleted 0),
      Call 0 (OpFindFiles None None None)]) = [0, 1, 2]"
proof -
  have "requestIdPool process_start + searches (length (objects process_start))
     [New None, Call 0 (OpFindFiles None None None), New (data_of [folder_a]),
      Call 1 (OpFindFiles (Some (GlobString ''*.ts'')) None (Some 10)),
      Call 0 (OpCancellationRequested 0), Call 0 (OpSearchCompleted 0),
      Call 0 (OpFindFiles None None None)] \<le> requestIdLimit"
    by (simp add: process_start_def requestIdLimit_def)
  from findFiles_requestIds_increasing [OF this, of posix]
  show ?thesis
    by (simp add: process_start_def upt_conv_Cons)
qed

text \<open>
  The claim as it was stated has no bound. Once \<open>2 ^ 53\<close> searches have been started the
  counter no longer changes, and the next two searches both send \<open>2 ^ 53\<close>.
\<close>

theorem findFiles_requestIds_repeat_counterexample:
  "searchRequestIds (calls_of_run posix process_start
     (New None # replicate requestIdLimit (Call 0 (OpFindFiles None None None)) @
        [Call 0 (OpFindFiles None None None), Call 0 (OpFindFiles None None None)])) =
   [0 ..< requestIdLimit] @ [requestIdLimit, requestIdLimit]"
proof -
  let ?f = "Call 0 (OpFindFiles None None None)"
  let ?es = "New None # replicate requestIdLimit ?f"
  define P1 where "P1 = run_process posix process_start ?es"
  have s: "searches (length (objects process_start)) ?es = requestIdLimit"
    by (simp add: process_start_def searches_replicate)
  have "requestIdPool process_start + searches (length (objects process_start)) ?es \<le> requestIdLimit"
    by (simp only: s) (simp add: process_start_def)
  from run_requestIds [OF this, of posix]
  have ids: "searchRequestIds (calls_of_run posix process_start ?es) = [0 ..< requestIdLimit]"
    and pool: "requestIdPool P1 = requestIdLimit"
    by (simp_all only: s P1_def) (simp_all add: process_start_def)
  have "length (objects (step_process posix process_start (New None)))
          \<le> length (objects (run_process posix (step_process posix process_start (New None))
               (replicate requestIdLimit ?f)))"
    using run_requestIds [of "step_process posix process_start (New None)"
        "replicate requestIdLimit ?f" posix]
    by (simp add: process_start_def searches_replicate)
  then have obj: "0 < length (objects P1)"
    by (simp add: P1_def run_process_Cons process_start_def Suc_le_eq)
  have stuck: "incremented requestIdLimit = requestIdLimit"
    by (simp add: incremented_def)
  define P2 where "P2 = step_process posix P1 ?f"
  have pool2: "requestIdPool P2 = requestIdLimit" and obj2: "0 < length (objects P2)"
    using step_process_pool [of posix P1 ?f] step_process_objects [of posix P1 ?f] obj pool stuck
    by (simp_all add: P2_def del: step_process.simps)
  have last: "searchRequestIds (calls_of_run posix P1 [?f, ?f]) = [requestIdLimit, requestIdLimit]"
    using calls_of_step_ids [of posix P1 ?f] calls_of_step_ids [of posix P2 ?f] obj pool pool2 obj2
    by (simp add: searchRequestIds_append P2_def del: step_process.simps calls_of_step.simps)
  have "calls_of_run posix process_start (?es @ [?f, ?f]) =
          calls_of_run posix process_start ?es @ calls_of_run posix P1 [?f, ?f]"
    by (simp only: calls_of_run_append P1_def)
  then show ?thesis
    by (simp only: searchRequestIds_append ids last append_Cons [symmetric])
qed

subsection \<open>Rejected updates\<close>

text \<open>
  Claim C5 (as amended). Take a call of \<open>updateWorkspaceFolders\<close> in which every entry of
  the folders to add is an object. If its index or its delete count is of another type
  than number or is negative, or it has nothing to delete and nothing to add once the
  folders to add are validated, or its index plus its delete count exceeds the number of
  current folders, then it returns \<open>False\<close>, does not throw, and returns the state it was
  given: the folder list, the calls sent to the main thread and the events are unchanged.
\<close>

theorem updateWorkspaceFolders_rejected:
  assumes "None \<notin> set toAdd"
    and "idx = JSOther \<or> (\<exists>i<0. idx = JSNumber i)
         \<or> deleteCount = JSOther \<or> (\<exists>i<0. deleteCount = JSNumber i)
         \<or> (deleteCount = JSNumber 0 \<and> validatedDistinct (isLinux env) toAdd = Inr [])
         \<or> (\<exists>i d. idx = JSNumber i \<and> deleteCount = JSNumber d
                \<and> i + d > int (length (currentWorkspaceFolders s)))"
  shows "updateWorkspaceFolders env s ext idx deleteCount toAdd = Inr (False, s)"
  using assms by (auto simp: updateWorkspaceFolders_unfold validatedDistinct_Inr)

theorem updateWorkspaceFolders_rejected_witness:
  "updateWorkspaceFolders posix (new_ExtHostWorkspace (data_of [folder_a])) ''ext''
     (JSNumber 0) (JSNumber 2) [to_add ''/b''] =
   Inr (False, new_ExtHostWorkspace (data_of [folder_a]))
   \<and> updateWorkspaceFolders posix (new_ExtHostWorkspace (data_of [folder_a])) ''ext''
     (JSNumber (- 1)) (JSNumber 1) [] =
   Inr (False, new_ExtHostWorkspace (data_of [folder_a]))"
proof -
  have len: "length (currentWorkspaceFolders (new_ExtHostWorkspace (data_of [folder_a]))) = 1"
    by code_simp
  have o: "None \<notin> set [to_add ''/b'']" "None \<notin> set ([] :: folder_to_add option list)"
    by (simp_all add: to_add_def)
  have h1: "\<exists>i d. JSNumber 0 = JSNumber i \<and> JSNumber 2 = JSNumber d
              \<and> i + d > int (length (currentWorkspaceFolders (new_ExtHostWorkspace (data_of [folder_a]))))"
    by (simp add: len)
  have h2: "\<exists>i<0. JSNumber (- 1) = JSNumber i"
    by (rule exI [of _ "- 1"]) simp
  show ?thesis
    using updateWorkspaceFolders_rejected [OF o(1), where idx = "JSNumber 0" and deleteCount = "JSNumber 2"
        and s = "new_ExtHostWorkspace (data_of [folder_a])" and env = posix and ext = "''ext''"]
      updateWorkspaceFolders_rejected [OF o(2), where idx = "JSNumber (- 1)" and deleteCount = "JSNumber 1"
        and s = "new_ExtHostWorkspace (data_of [folder_a])" and env = posix and ext = "''ext''"]
      h1 h2
    by blast
qed

text \<open>
  The claim as it was stated fails in two ways. A call with a negative index throws
  when an entry of the folders to add is \<^verbatim>\<open>undefined\<close>: the entries are read before the
  numbers are looked at. And a call whose index is \<^verbatim>\<open>NaN\<close> is not turned down: on the one
  folder \<^verbatim>\<open>/a\<close>, adding \<^verbatim>\<open>/b\<close> at index \<^verbatim>\<open>NaN\<close> is accepted, sent to the main thread and
  applied.
\<close>

theorem updateWorkspaceFolders_rejected_counterexample:
  "updateWorkspaceFolders posix (new_ExtHostWorkspace (data_of [folder_a])) ''ext''
     (JSNumber (- 1)) (JSNumber 0) [None] = Inl TypeError
   \<and> updateWorkspaceFolders posix (new_ExtHostWorkspace (data_of [folder_a])) ''ext''
       JSNaN (JSNumber 0) [to_add ''/b''] =
     Inr (True, (new_ExtHostWorkspace (data_of [folder_a]))
        \<lparr>proxy := [UpdateWorkspaceFolders ''ext'' JSNaN (JSNumber 0) [(URI_file ''/b'', None)]],
         workspace := Some ((new_Workspace2 ''id'' ''workspace'' [folder_a])
                             \<lparr>priv_workspaceFolders := [folder_b, folder_a]\<rparr>)\<rparr>)"
  by code_simp

subsection \<open>The optimistic update\<close>

text \<open>
  Claim C4 (as amended). When a call of \<open>updateWorkspaceFolders\<close> returns \<open>True\<close> in a
  state that has a workspace, \<open>getWorkspaceFolders\<close> returns the new list at once: the
  current folders with \<open>deleteCount\<close> entries from \<open>idx\<close> on replaced by the validated
  folders to add. Without a workspace the call can return \<open>True\<close> as well, and
  \<open>getWorkspaceFolders\<close> still returns nothing.
\<close>

theorem optimistic_update_visible:
  assumes "updateWorkspaceFolders env s ext idx deleteCount toAdd = Inr (True, s')"
  shows "validatedDistinct (isLinux env) toAdd = Inr (validatedFoldersToAdd env toAdd)
       \<and> getWorkspaceFolders s' =
           (if workspace s = None then None
            else Some (take (numberOf idx) (currentWorkspaceFolders s) @
                       foldersToInsert (validatedFoldersToAdd env toAdd) @
                       drop (numberOf idx + numberOf deleteCount) (currentWorkspaceFolders s)))"
  using accepted_state(1,3) [OF assms]
  by (auto simp: getWorkspaceFolders_def workspaceFolders_def trySetWorkspaceFolders_def
        map_new_WorkspaceFolder newWorkspaceFolders_def array_splice_def validatedDistinct_Inr
        split: option.splits)

theorem optimistic_update_visible_witness:
  "map_option getWorkspaceFolders
     (accepted (updateWorkspaceFolders posix (new_ExtHostWorkspace (data_of [folder_a]))
        ''ext'' (JSNumber 1) (JSNumber 0) [to_add ''/b''])) = Some (Some [folder_a, folder_b])"
proof -
  have "accepted (updateWorkspaceFolders posix (new_ExtHostWorkspace (data_of [folder_a]))
        ''ext'' (JSNumber 1) (JSNumber 0) [to_add ''/b'']) \<noteq> None"
    by code_simp
  then obtain s' where a: "accepted (updateWorkspaceFolders posix (new_ExtHostWorkspace (data_of [folder_a]))
        ''ext'' (JSNumber 1) (JSNumber 0) [to_add ''/b'']) = Some s'"
    by blast
  from optimistic_update_visible [OF a [unfolded accepted_iff]]
  have "getWorkspaceFolders s' =
    (if workspace (new_ExtHostWorkspace (data_of [folder_a])) = None then None
     else Some (take (numberOf (JSNumber 1)) (currentWorkspaceFolders (new_ExtHostWorkspace (data_of [folder_a]))) @
                foldersToInsert (validatedFoldersToAdd posix [to_add ''/b'']) @
                drop (numberOf (JSNumber 1) + numberOf (JSNumber 0))
                  (currentWorkspaceFolders (new_ExtHostWorkspace (data_of [folder_a])))))"
    by blast
  also have "\<dots> = Some [folder_a, folder_b]"
    by code_simp
  finally show ?thesis by (simp add: a)
qed

text \<open>
  The claim as it was stated includes the state without a workspace. There, adding
  \<^verbatim>\<open>/a\<close> at position 0 is accepted and dispatched, the prospective list is the one
  folder, and \<open>getWorkspaceFolders\<close> returns nothing.
\<close>

theorem optimistic_update_absent_counterexample:
  "map_option getWorkspaceFolders
     (accepted (updateWorkspaceFolders posix (new_ExtHostWorkspace None) ''ext'' (JSNumber 0)
        (JSNumber 0) [to_add ''/a''])) = Some None
   \<and> newWorkspaceFolders posix (new_ExtHostWorkspace None) (JSNumber 0) (JSNumber 0)
          [to_add ''/a''] = [folder_a]"
  by code_simp

text \<open>
  Claim C7. An accepted \<open>updateWorkspaceFolders\<close> replaces the list that
  \<open>getWorkspaceFolders\<close> reads (when there is a workspace, the new list differs from the
  old one) and nothing else of the workspace: the containment index \<open>priv_structure\<close> and
  the base list \<open>folders\<close> are the ones of before, so \<open>getWorkspaceFolder\<close>,
  \<open>getRelativePath\<close> and \<open>getPath\<close> answer as they did before the update. The next
  \<open>acceptWorkspaceData\<close> replaces the whole workspace by the one built from its data.
\<close>

theorem update_keeps_index_and_base_folders:
  assumes "updateWorkspaceFolders env s ext idx deleteCount toAdd = Inr (True, s')"
  shows "map_option priv_structure (workspace s') = map_option priv_structure (workspace s)
       \<and> map_option folders (workspace s') = map_option folders (workspace s)
       \<and> getWorkspaceFolder env' s' u rp = getWorkspaceFolder env' s u rp
       \<and> getRelativePath env' s' p inc = getRelativePath env' s p inc
       \<and> getPath s' = getPath s
       \<and> (workspace s = None \<or>
            getWorkspaceFolders s' = Some (newWorkspaceFolders env s idx deleteCount toAdd)
            \<and> getWorkspaceFolders s' \<noteq> getWorkspaceFolders s)
       \<and> workspace (acceptWorkspaceData s' d) = fromData d"
proof -
  note st = accepted_state(1) [OF assms]
  have changed: "newWorkspaceFolders env s idx deleteCount toAdd \<noteq> currentWorkspaceFolders s"
    using accepted_state(2) [OF assms]
      delta_same [of compareWorkspaceFolderByUriAndName "currentWorkspaceFolders s"]
    by (auto simp: compareWorkspaceFolderByUriAndName_def compare_refl)
  have a: "map_option priv_structure (workspace s') = map_option priv_structure (workspace s)"
    by (simp add: st trySetWorkspaceFolders_def option.map_comp comp_def)
  have b: "map_option folders (workspace s') = map_option folders (workspace s)"
    by (simp add: st trySetWorkspaceFolders_def option.map_comp comp_def)
  have c: "getWorkspaceFolder env' s' u rp = getWorkspaceFolder env' s u rp" for u rp
    by (cases "workspace s")
       (simp_all add: st getWorkspaceFolder_def ws_getWorkspaceFolder_def trySetWorkspaceFolders_def)
  have len: "(case workspace s' of Some w \<Rightarrow> length (folders w) > 1 | None \<Rightarrow> False) =
             (case workspace s of Some w \<Rightarrow> length (folders w) > 1 | None \<Rightarrow> False)"
    by (cases "workspace s") (simp_all add: st trySetWorkspaceFolders_def)
  have d: "getRelativePath env' s' p inc = getRelativePath env' s p inc"
    by (simp only: getRelativePath_def c len)
  have e: "getPath s' = getPath s"
    by (cases "workspace s") (simp_all add: st getPath_def trySetWorkspaceFolders_def)
  have f: "workspace s = None \<or>
            getWorkspaceFolders s' = Some (newWorkspaceFolders env s idx deleteCount toAdd)
            \<and> getWorkspaceFolders s' \<noteq> getWorkspaceFolders s"
    using changed
    by (cases "workspace s")
       (simp_all add: st getWorkspaceFolders_def workspaceFolders_def trySetWorkspaceFolders_def
          map_new_WorkspaceFolder currentWorkspaceFolders_def)
  have g: "workspace (acceptWorkspaceData s' d) = fromData d"
    by (simp add: acceptWorkspaceData_def Let_def split: prod.splits)
  show ?thesis using a b c d e f g by blast
qed

theorem update_keeps_index_and_base_folders_witness:
  "map_option (\<lambda>s'. getWorkspaceFolder posix s' (URI_file ''/b/c.txt'') False)
     (accepted (updateWorkspaceFolders posix (new_ExtHostWorkspace (data_of [folder_a]))
        ''ext'' (JSNumber 1) (JSNumber 0) [to_add ''/b''])) = Some None
   \<and> map_option getPath
     (accepted (updateWorkspaceFolders posix (new_ExtHostWorkspace (data_of [folder_a]))
        ''ext'' (JSNumber 0) (JSNumber 1) [to_add ''/b''])) = Some (Some ''/a'')"
proof -
  have "accepted (updateWorkspaceFolders posix (new_ExtHostWorkspace (data_of [folder_a]))
      ''ext'' (JSNumber 1) (JSNumber 0) [to_add ''/b'']) \<noteq> None"
    by code_simp
  then obtain s1 where 1: "accepted (updateWorkspaceFolders posix (new_ExtHostWorkspace (data_of [folder_a]))
      ''ext'' (JSNumber 1) (JSNumber 0) [to_add ''/b'']) = Some s1"
    by blast
  have "accepted (updateWorkspaceFolders posix (new_ExtHostWorkspace (data_of [folder_a]))
      ''ext'' (JSNumber 0) (JSNumber 1) [to_add ''/b'']) \<noteq> None"
    by code_simp
  then obtain s2 where 2: "accepted (updateWorkspaceFolders posix (new_ExtHostWorkspace (data_of [folder_a]))
      ''ext'' (JSNumber 0) (JSNumber 1) [to_add ''/b'']) = Some s2"
    by blast
  have 3: "getWorkspaceFolder posix (new_ExtHostWorkspace (data_of [folder_a]))
             (URI_file ''/b/c.txt'') False = None"
    by code_simp
  have 4: "getPath (new_ExtHostWorkspace (data_of [folder_a])) = Some ''/a''"
    by code_simp
  show ?thesis
    using update_keeps_index_and_base_folders [OF 1 [unfolded accepted_iff],
        where env' = posix and u = "URI_file ''/b/c.txt''" and rp = False]
      update_keeps_index_and_base_folders [OF 2 [unfolded accepted_iff]]
      3 4
    by (simp add: 1 2)
qed

subsection \<open>Indices and the no-change guard of an accepted update\<close>

text \<open>
  Claim C2. The claim asks that after an accepted update the \<open>index\<close> fields of the
  folder list are its positions. The code numbers each inserted folder by its position
  among the folders to add and leaves the other folders' indices as they were: appending
  \<^verbatim>\<open>/b\<close> to the one folder \<^verbatim>\<open>/a\<close> is accepted, and the resulting list carries the
  indices 0 and 0.
\<close>

theorem update_indices_not_positions:
  "map_option (\<lambda>s'. map_option (map index) (getWorkspaceFolders s'))
     (accepted (updateWorkspaceFolders posix (new_ExtHostWorkspace (data_of [folder_a])) ''ext''
        (JSNumber 1) (JSNumber 0) [to_add ''/b''])) = Some (Some [0, 0])"
  by code_simp

text \<open>
  Claim C3. The claim asks that an update is turned down as a no-op exactly when the new
  list equals the current one in identifiers and names. The comparison the code uses adds
  the two comparison results, so a smaller identifier with a greater name counts as equal:
  replacing the folder \<^verbatim>\<open>/x/b\<close> (named b) by \<^verbatim>\<open>/y/a\<close> (named a) returns \<open>False\<close> and
  changes nothing, although the new list differs from the current one.
\<close>

theorem update_suppressed_though_changed:
  "updateWorkspaceFolders posix (new_ExtHostWorkspace (data_of [folder_xb])) ''ext''
     (JSNumber 0) (JSNumber 1) [to_add ''/y/a''] =
   Inr (False, new_ExtHostWorkspace (data_of [folder_xb]))
   \<and> currentWorkspaceFolders (new_ExtHostWorkspace (data_of [folder_xb])) = [folder_xb]
   \<and> newWorkspaceFolders posix (new_ExtHostWorkspace (data_of [folder_xb]))
        (JSNumber 0) (JSNumber 1) [to_add ''/y/a''] = [folder_ya]
   \<and> compareWorkspaceFolderByUriAndName folder_xb folder_ya = 0
   \<and> uri folder_xb \<noteq> uri folder_ya \<and> name folder_xb \<noteq> name folder_ya"
  by code_simp

subsection \<open>Duplicates among the folders to add\<close>

text \<open>
  Claim C8. When every entry of the folders to add is an object, the validated folders
  are the entries with a URI, with duplicates removed keeping the first occurrence: no
  kept entry has the identifier of an earlier kept one, the kept entries are a
  subsequence of the given ones, and every given entry has its identifier among the kept
  ones; these are the folders an accepted call sends to the main thread. (An entry that
  is \<^verbatim>\<open>null\<close> or \<^verbatim>\<open>undefined\<close> makes the loop throw.) Identifiers are compared by their
  string forms, exactly on Linux and up to the case of letters elsewhere. Adding \<^verbatim>\<open>/a\<close>
  twice to a workspace without folders adds one folder, and sends one folder to the main
  thread.
\<close>

theorem validatedDistinct_keeps_first:
  "validatedDistinct linux toAdd =
     (if None \<in> set toAdd then Inl TypeError
      else Inr (keep_first (same_uri linux) (validated_entries toAdd)))
   \<and> (None \<in> set toAdd \<or>
        (\<exists>kept. validatedDistinct linux toAdd = Inr kept
           \<and> sorted_wrt (\<lambda>a b. \<not> same_uri linux a b) kept
           \<and> subseq kept (validated_entries toAdd)
           \<and> (\<forall>e \<in> set (validated_entries toAdd). \<exists>k \<in> set kept. same_uri linux k e)))
   \<and> (updateWorkspaceFolders env s ext idx deleteCount toAdd = Inr (True, s') \<longrightarrow>
        proxy s' = proxy s @
          [UpdateWorkspaceFolders ext idx deleteCount
             (keep_first (same_uri (isLinux env)) (validated_entries toAdd))])
   \<and> (same_uri True a b \<longleftrightarrow> toString (fst a) = toString (fst b))
   \<and> (same_uri False a b \<longleftrightarrow>
         map toLowerCase (toString (fst a)) = map toLowerCase (toString (fst b)))
   \<and> validatedDistinct True [to_add ''/a'', to_add ''/A''] =
         Inr [(URI_file ''/a'', None), (URI_file ''/A'', None)]
   \<and> validatedDistinct False [to_add ''/a'', to_add ''/A''] = Inr [(URI_file ''/a'', None)]
   \<and> validatedDistinct linux
         [Some \<lparr>uri_to_add = Some (URI_file ''/a''), name_to_add = Some ''first''\<rparr>,
          Some \<lparr>uri_to_add = None, name_to_add = Some ''no uri''\<rparr>,
          Some \<lparr>uri_to_add = Some (URI_file ''/a''), name_to_add = Some ''second''\<rparr>] =
         Inr [(URI_file ''/a'', Some ''first'')]
   \<and> updateWorkspaceFolders posix (new_ExtHostWorkspace (data_of [])) ''ext''
         (JSNumber 0) (JSNumber 0) [to_add ''/a'', to_add ''/a''] =
       Inr (True, (new_ExtHostWorkspace (data_of []))
          \<lparr>proxy := [UpdateWorkspaceFolders ''ext'' (JSNumber 0) (JSNumber 0)
                       [(URI_file ''/a'', None)]],
           workspace := Some ((new_Workspace2 ''id'' ''workspace'' [])
                               \<lparr>priv_workspaceFolders := [folder_a]\<rparr>)\<rparr>)
   \<and> map_option getWorkspaceFolders
        (accepted (updateWorkspaceFolders darwin (new_ExtHostWorkspace (data_of []))
           ''ext'' (JSNumber 0) (JSNumber 0) [to_add ''/a'', to_add ''/a''])) =
       Some (Some [folder_a])"
proof -
  let ?kept = "keep_first (same_uri linux) (validated_entries toAdd)"
  have 1: "validatedDistinct linux toAdd =
     (if None \<in> set toAdd then Inl TypeError else Inr ?kept)"
    by (rule validatedDistinct_keep_first)
  have p: "sorted_wrt (\<lambda>a b. \<not> same_uri linux a b) ?kept"
    by (rule keep_first_pairwise)
  have q: "subseq ?kept (validated_entries toAdd)"
    by (rule keep_first_subseq)
  have r: "\<forall>e \<in> set (validated_entries toAdd). \<exists>k \<in> set ?kept. same_uri linux k e"
    using keep_first_covers [of "same_uri linux"]
    by (simp add: same_uri_def isEqual_refl)
  have 2: "None \<in> set toAdd \<or>
        (\<exists>kept. validatedDistinct linux toAdd = Inr kept
           \<and> sorted_wrt (\<lambda>a b. \<not> same_uri linux a b) kept
           \<and> subseq kept (validated_entries toAdd)
           \<and> (\<forall>e \<in> set (validated_entries toAdd). \<exists>k \<in> set kept. same_uri linux k e))"
  proof (cases "None \<in> set toAdd")
    case True
    then show ?thesis by blast
  next
    case False
    then have "validatedDistinct linux toAdd = Inr ?kept"
      by (simp add: 1)
    with p q r show ?thesis by blast
  qed
  have 3: "updateWorkspaceFolders env s ext idx deleteCount toAdd = Inr (True, s') \<longrightarrow>
        proxy s' = proxy s @
          [UpdateWorkspaceFolders ext idx deleteCount
             (keep_first (same_uri (isLinux env)) (validated_entries toAdd))]"
  proof
    assume a: "updateWorkspaceFolders env s ext idx deleteCount toAdd = Inr (True, s')"
    from accepted_state(1,3) [OF a] show "proxy s' = proxy s @
          [UpdateWorkspaceFolders ext idx deleteCount
             (keep_first (same_uri (isLinux env)) (validated_entries toAdd))]"
      by (simp add: validatedFoldersToAdd_keep_first)
  qed
  have 5: "same_uri True a b \<longleftrightarrow> toString (fst a) = toString (fst b)"
    by (simp add: same_uri_def isEqual_def)
  have 6: "same_uri False a b \<longleftrightarrow>
         map toLowerCase (toString (fst a)) = map toLowerCase (toString (fst b))"
    by (simp add: same_uri_def isEqual_def equalsIgnoreCase_def)
  have 7: "validatedDistinct True [to_add ''/a'', to_add ''/A''] =
         Inr [(URI_file ''/a'', None), (URI_file ''/A'', None)]"
    by code_simp
  have 8: "validatedDistinct False [to_add ''/a'', to_add ''/A''] = Inr [(URI_file ''/a'', None)]"
    by code_simp
  have 9: "validatedDistinct linux
         [Some \<lparr>uri_to_add = Some (URI_file ''/a''), name_to_add = Some ''first''\<rparr>,
          Some \<lparr>uri_to_add = None, name_to_add = Some ''no uri''\<rparr>,
          Some \<lparr>uri_to_add = Some (URI_file ''/a''), name_to_add = Some ''second''\<rparr>] =
         Inr [(URI_file ''/a'', Some ''first'')]"
    by (simp add: validatedDistinct_def isEqual_refl)
  have 10: "updateWorkspaceFolders posix (new_ExtHostWorkspace (data_of [])) ''ext''
         (JSNumber 0) (JSNumber 0) [to_add ''/a'', to_add ''/a''] =
       Inr (True, (new_ExtHostWorkspace (data_of []))
          \<lparr>proxy := [UpdateWorkspaceFolders ''ext'' (JSNumber 0) (JSNumber 0)
                       [(URI_file ''/a'', None)]],
           workspace := Some ((new_Workspace2 ''id'' ''workspace'' [])
                               \<lparr>priv_workspaceFolders := [folder_a]\<rparr>)\<rparr>)"
    by code_simp
  have 11: "map_option getWorkspaceFolders
        (accepted (updateWorkspaceFolders darwin (new_ExtHostWorkspace (data_of []))
           ''ext'' (JSNumber 0) (JSNumber 0) [to_add ''/a'', to_add ''/a''])) =
       Some (Some [folder_a])"
    by code_simp
  show ?thesis
    using 1 2 3 5 6 7 8 9 10 11 by blast
qed

theorem validatedDistinct_keeps_first_witness:
  "None \<notin> set [to_add ''/a'', to_add ''/A'']
   \<and> (URI_file ''/A'', None) \<in> set (validated_entries [to_add ''/a'', to_add ''/A''])
   \<and> (\<exists>kept. validatedDistinct False [to_add ''/a'', to_add ''/A''] = Inr kept
         \<and> (\<exists>k \<in> set kept. same_uri False k (URI_file ''/A'', None)))"
proof -
  have n: "None \<notin> set [to_add ''/a'', to_add ''/A'']"
    by (simp add: to_add_def)
  have m: "(URI_file ''/A'', None) \<in> set (validated_entries [to_add ''/a'', to_add ''/A''])"
    by code_simp
  from validatedDistinct_keeps_first [of False "[to_add ''/a'', to_add ''/A'']"] n m
  show ?thesis by blast
qed

subsection \<open>The change event of an authoritative snapshot\<close>

lemma compare_le_zero: "compare a b \<le> 0 \<longleftrightarrow> a \<le> b"
  by (auto simp: compare_def)

lemma compare_eq_zero: "compare a b = 0 \<longleftrightarrow> a = b"
  by (auto simp: compare_def)

lemma insert_by_uri: "insert_by compareWorkspaceFolderByUri x ys = insort_key folder_id x ys"
  by (induction ys) (simp_all add: compareWorkspaceFolderByUri_def compare_le_zero folder_id_def)

lemma sort_by_uri: "sort_by compareWorkspaceFolderByUri xs = sort_key folder_id xs"
  by (induction xs) (simp_all add: sort_by_def insert_by_uri)

lemma map_sort_key: "map f (sort_key f xs) = sort (map f xs)"
  by (rule properties_for_sort [symmetric]) simp_all

lemma delta_uri_empty:
  "delta xs ys compareWorkspaceFolderByUri = ([], []) \<longleftrightarrow> map folder_id xs = map folder_id ys"
proof -
  have "list_all2 (\<lambda>x y. compareWorkspaceFolderByUri x y = 0) xs ys
          \<longleftrightarrow> list_all2 (=) (map folder_id xs) (map folder_id ys)"
    by (simp add: list_all2_map1 list_all2_map2 compareWorkspaceFolderByUri_def compare_eq_zero
          folder_id_def)
  then show ?thesis
    by (simp add: delta_empty_iff list.rel_eq)
qed

lemma delta_sorted_uri_empty:
  "delta (sort_by compareWorkspaceFolderByUri xs) (sort_by compareWorkspaceFolderByUri ys)
     compareWorkspaceFolderByUri = ([], [])
   \<longleftrightarrow> mset (map folder_id xs) = mset (map folder_id ys)"
proof -
  have "sort (map folder_id xs) = sort (map folder_id ys)
          \<longleftrightarrow> mset (map folder_id xs) = mset (map folder_id ys)"
  proof
    assume "sort (map folder_id xs) = sort (map folder_id ys)"
    then have "mset (sort (map folder_id xs)) = mset (sort (map folder_id ys))" by simp
    then show "mset (map folder_id xs) = mset (map folder_id ys)" by simp
  next
    assume "mset (map folder_id xs) = mset (map folder_id ys)"
    then show "sort (map folder_id xs) = sort (map folder_id ys)"
      by (intro properties_for_sort) simp_all
  qed
  then show ?thesis
    by (simp add: delta_uri_empty sort_by_uri map_sort_key)
qed

lemma currentWorkspaceFolders_fromData:
  "workspace s = fromData d \<Longrightarrow> map folder_id (currentWorkspaceFolders s) = identifiers d"
  by (cases d)
     (simp_all add: currentWorkspaceFolders_def fromData_def identifiers_def new_Workspace2_def
        workspaceFolders_def map_new_WorkspaceFolder)

lemma sort_by_Nil: "sort_by cmp [] = []"
  by (simp add: sort_by_def)

lemma acceptWorkspaceData_unfold:
  "acceptWorkspaceData s d =
     s\<lparr>workspace := fromData d,
       onDidChangeWorkspace := onDidChangeWorkspace s @
         [\<lparr>added = snd (delta (sort_by compareWorkspaceFolderByUri (currentWorkspaceFolders s))
                          (sort_by compareWorkspaceFolderByUri
                             (currentWorkspaceFolders (s\<lparr>workspace := fromData d\<rparr>)))
                          compareWorkspaceFolderByUri),
           removed = fst (delta (sort_by compareWorkspaceFolderByUri (currentWorkspaceFolders s))
                          (sort_by compareWorkspaceFolderByUri
                             (currentWorkspaceFolders (s\<lparr>workspace := fromData d\<rparr>)))
                          compareWorkspaceFolderByUri)\<rparr>]\<rparr>"
  by (cases "workspace s"; cases "fromData d")
     (simp_all add: acceptWorkspaceData_def currentWorkspaceFolders_def Let_def sort_by_Nil
        case_prod_beta)

text \<open>
  Claim C1 (as amended). Every call of \<open>acceptWorkspaceData\<close> fires exactly one event.
  Of two consecutive calls, the second fires the event with no added and no removed
  folder exactly when the two snapshots carry the same identifiers, each as often, in
  any order.
\<close>

theorem acceptWorkspaceData_always_fires:
  "(\<exists>e. onDidChangeWorkspace (acceptWorkspaceData s d) = onDidChangeWorkspace s @ [e])
   \<and> ((onDidChangeWorkspace (acceptWorkspaceData (acceptWorkspaceData s d1) d2) =
         onDidChangeWorkspace (acceptWorkspaceData s d1) @ [\<lparr>added = [], removed = []\<rparr>])
        \<longleftrightarrow> mset (identifiers d1) = mset (identifiers d2))"
proof -
  have 1: "\<exists>e. onDidChangeWorkspace (acceptWorkspaceData s d) = onDidChangeWorkspace s @ [e]"
    by (simp add: acceptWorkspaceData_unfold)
  define s1 where "s1 = acceptWorkspaceData s d1"
  have w1: "workspace s1 = fromData d1"
    by (simp add: s1_def acceptWorkspaceData_unfold)
  have w2: "workspace (s1\<lparr>workspace := fromData d2\<rparr>) = fromData d2"
    by simp
  define D where "D = delta (sort_by compareWorkspaceFolderByUri (currentWorkspaceFolders s1))
                          (sort_by compareWorkspaceFolderByUri
                             (currentWorkspaceFolders (s1\<lparr>workspace := fromData d2\<rparr>)))
                          compareWorkspaceFolderByUri"
  have "D = ([], []) \<longleftrightarrow> mset (identifiers d1) = mset (identifiers d2)"
    unfolding D_def delta_sorted_uri_empty
    by (simp add: currentWorkspaceFolders_fromData [OF w1] currentWorkspaceFolders_fromData [OF w2])
  moreover have "onDidChangeWorkspace (acceptWorkspaceData s1 d2) =
      onDidChangeWorkspace s1 @ [\<lparr>added = snd D, removed = fst D\<rparr>]"
    by (simp add: acceptWorkspaceData_unfold [of s1] D_def)
  ultimately have 2: "(onDidChangeWorkspace (acceptWorkspaceData s1 d2) =
         onDidChangeWorkspace s1 @ [\<lparr>added = [], removed = []\<rparr>])
        \<longleftrightarrow> mset (identifiers d1) = mset (identifiers d2)"
    by (cases D) auto
  show ?thesis using 1 2 by (simp add: s1_def)
qed

text \<open>
  The claim as it was stated has no event for the second of two calls with the same
  folders. Here the same snapshot is accepted twice, and the second call fires an event,
  with nothing added and nothing removed.
\<close>

theorem acceptWorkspaceData_same_folders_counterexample:
  "onDidChangeWorkspace
     (acceptWorkspaceData
        (acceptWorkspaceData (new_ExtHostWorkspace None) (data_of [folder_a, folder_x]))
        (data_of [folder_a, folder_x])) =
   [\<lparr>added = [folder_a, folder_x], removed = []\<rparr>, \<lparr>added = [], removed = []\<rparr>]"
  by code_simp

subsection \<open>Containment lookup\<close>

lemma findSubstr_from_none:
  "(\<And>k. k \<noteq> [] \<Longrightarrow> prefix k ss \<Longrightarrow> map_of t (pre @ k) = None)
   \<Longrightarrow> findSubstr_from t pre ss cand = cand"
proof (induction ss arbitrary: pre cand)
  case Nil
  show ?case by simp
next
  case (Cons s ss)
  have a: "map_of t (pre @ [s]) = None"
    using Cons.prems [of "[s]"] by simp
  have b: "map_of t ((pre @ [s]) @ k) = None" if "k \<noteq> []" "prefix k ss" for k
    using Cons.prems [of "s # k"] that by simp
  show ?case
    using Cons.IH [of "pre @ [s]" cand, OF b] a by simp
qed

lemma findSubstr_from_hit:
  "k \<noteq> [] \<Longrightarrow> prefix k ss \<Longrightarrow> map_of t (pre @ k) = Some v
   \<Longrightarrow> (\<And>k'. prefix k' ss \<Longrightarrow> length k < length k' \<Longrightarrow> map_of t (pre @ k') = None)
   \<Longrightarrow> findSubstr_from t pre ss cand = Some v"
proof (induction ss arbitrary: pre cand k)
  case Nil
  then show ?case by simp
next
  case (Cons s ss)
  from Cons.prems(1,2) obtain k1 where k: "k = s # k1" "prefix k1 ss"
    by (cases k) simp_all
  show ?case
  proof (cases "k1 = []")
    case True
    have hit: "map_of t (pre @ [s]) = Some v"
      using Cons.prems(3) k True by simp
    have rest: "map_of t ((pre @ [s]) @ k') = None" if "k' \<noteq> []" "prefix k' ss" for k'
      using Cons.prems(4) [of "s # k'"] that k True by (cases k') simp_all
    show ?thesis
      using findSubstr_from_none [of ss t "pre @ [s]" "Some v", OF rest] hit by simp
  next
    case False
    have hit: "map_of t ((pre @ [s]) @ k1) = Some v"
      using Cons.prems(3) k by simp
    have rest: "map_of t ((pre @ [s]) @ k') = None" if "prefix k' ss" "length k1 < length k'" for k'
      using Cons.prems(4) [of "s # k'"] that k by simp
    show ?thesis
      using Cons.IH [of k1 "pre @ [s]", OF False k(2) hit rest] by simp
  qed
qed

lemma findSubstr_from_cases:
  "(findSubstr_from t pre ss cand = cand
      \<and> (\<forall>k. k \<noteq> [] \<and> prefix k ss \<longrightarrow> map_of t (pre @ k) = None))
   \<or> (\<exists>k v. k \<noteq> [] \<and> prefix k ss \<and> map_of t (pre @ k) = Some v
         \<and> findSubstr_from t pre ss cand = Some v
         \<and> (\<forall>k'. prefix k' ss \<and> length k < length k' \<longrightarrow> map_of t (pre @ k') = None))"
proof (cases "\<forall>k. k \<noteq> [] \<and> prefix k ss \<longrightarrow> map_of t (pre @ k) = None")
  case True
  then have "findSubstr_from t pre ss cand = cand"
    by (intro findSubstr_from_none) blast
  with True show ?thesis by blast
next
  case False
  define P where "P k \<longleftrightarrow> k \<noteq> [] \<and> prefix k ss \<and> map_of t (pre @ k) \<noteq> None" for k
  from False obtain k0 where "P k0"
    unfolding P_def by blast
  moreover have "\<forall>y. P y \<longrightarrow> length y < Suc (length ss)"
    unfolding P_def by (simp add: prefix_length_le less_Suc_eq_le)
  ultimately have "\<exists>x. P x \<and> (\<forall>y. P y \<longrightarrow> length y \<le> length x)"
    by (rule ex_has_greatest_nat)
  then obtain k where k: "P k" "\<forall>y. P y \<longrightarrow> length y \<le> length k"
    by blast
  from k(1) obtain v where v: "map_of t (pre @ k) = Some v"
    unfolding P_def by blast
  have longer: "map_of t (pre @ k') = None" if "prefix k' ss" "length k < length k'" for k'
  proof (rule ccontr)
    assume "map_of t (pre @ k') \<noteq> None"
    moreover from that(2) have "k' \<noteq> []" by auto
    ultimately have "P k'" using that(1) unfolding P_def by blast
    with k(2) have "length k' \<le> length k" by blast
    with that(2) show False by simp
  qed
  from k(1) have kk: "k \<noteq> []" "prefix k ss"
    unfolding P_def by blast+
  have "findSubstr_from t pre ss cand = Some v"
    using findSubstr_from_hit [OF kk v longer] by blast
  with kk v longer show ?thesis by blast
qed

lemma tst_findSubstr_None:
  assumes "tst_findSubstr key t = None" and "prefix k (segments key)"
  shows "map_of t k = None"
proof -
  from findSubstr_from_cases [of t "[]" "segments key" "map_of t []"] assms(1)
  have "map_of t [] = None \<and> (\<forall>k. k \<noteq> [] \<and> prefix k (segments key) \<longrightarrow> map_of t k = None)"
    unfolding tst_findSubstr_def by force
  with assms(2) show ?thesis by (cases "k = []") simp_all
qed

lemma tst_findSubstr_Some:
  assumes "tst_findSubstr key t = Some v"
  shows "\<exists>k. prefix k (segments key) \<and> map_of t k = Some v
           \<and> (\<forall>k'. prefix k' (segments key) \<and> length k < length k' \<longrightarrow> map_of t k' = None)"
proof -
  from findSubstr_from_cases [of t "[]" "segments key" "map_of t []"]
  show ?thesis
  proof (elim disjE conjE exE)
    assume a: "findSubstr_from t [] (segments key) (map_of t []) = map_of t []"
       and b: "\<forall>k. k \<noteq> [] \<and> prefix k (segments key) \<longrightarrow> map_of t ([] @ k) = None"
    from a assms have "map_of t [] = Some v"
      by (simp add: tst_findSubstr_def)
    moreover have "\<forall>k'. prefix k' (segments key) \<and> length ([]::string list) < length k'
                     \<longrightarrow> map_of t k' = None"
      using b by auto
    ultimately show ?thesis
      using Nil_prefix by blast
  next
    fix k w
    assume "k \<noteq> []" "prefix k (segments key)" "map_of t ([] @ k) = Some w"
      "findSubstr_from t [] (segments key) (map_of t []) = Some w"
      "\<forall>k'. prefix k' (segments key) \<and> length k < length k' \<longrightarrow> map_of t ([] @ k') = None"
    with assms have "prefix k (segments key) \<and> map_of t k = Some v
           \<and> (\<forall>k'. prefix k' (segments key) \<and> length k < length k' \<longrightarrow> map_of t k' = None)"
      by (simp add: tst_findSubstr_def)
    then show ?thesis by blast
  qed
qed

lemma structure_lookup:
  "map_of (foldl (\<lambda>t f. tst_set (toString (uri f)) (new_WorkspaceFolder f) t) t0 fs) k =
     (case filter (\<lambda>f. folder_key f = k) (rev fs) of [] \<Rightarrow> map_of t0 k | g # gs \<Rightarrow> Some g)"
proof (induction fs rule: rev_induct)
  case Nil
  show ?case by simp
next
  case (snoc f fs)
  show ?case
    using snoc.IH
    by (simp add: tst_set_def update_conv' new_WorkspaceFolder_ident folder_key_def folder_id_def)
qed

lemma structure_Some:
  assumes "map_of (priv_structure (new_Workspace2 i n fs)) k = Some g"
  shows "g \<in> set fs \<and> folder_key g = k"
proof -
  from assms have "(case filter (\<lambda>f. folder_key f = k) (rev fs) of [] \<Rightarrow> None | g # gs \<Rightarrow> Some g) = Some g"
    by (simp add: new_Workspace2_def structure_lookup split: list.splits)
  then obtain gs where "filter (\<lambda>f. folder_key f = k) (rev fs) = g # gs"
    by (cases "filter (\<lambda>f. folder_key f = k) (rev fs)") simp_all
  then have "g \<in> set (filter (\<lambda>f. folder_key f = k) (rev fs))"
    by simp
  then show ?thesis by simp
qed

lemma structure_defined:
  assumes "f \<in> set fs"
  shows "map_of (priv_structure (new_Workspace2 i n fs)) (folder_key f) \<noteq> None"
proof -
  from assms have "f \<in> set (filter (\<lambda>g. folder_key g = folder_key f) (rev fs))"
    by simp
  then have "filter (\<lambda>g. folder_key g = folder_key f) (rev fs) \<noteq> []"
    by (metis empty_iff list.set(1))
  then show ?thesis
    by (cases "filter (\<lambda>g. folder_key g = folder_key f) (rev fs)")
       (simp_all add: new_Workspace2_def structure_lookup)
qed

lemma getWorkspaceFolder_fromData:
  assumes "workspace s = fromData (Some d)"
  shows "getWorkspaceFolder env s u rp =
     (let t = priv_structure (new_Workspace2 (data_id d) (data_name d) (data_folders d));
          u' = (if rp \<and> map_of t (segments (toString u)) \<noteq> None
                then u\<lparr>path := dirname env (path u)\<rparr> else u)
      in tst_findSubstr (toString u') t)"
  using assms
  by (simp add: getWorkspaceFolder_def ws_getWorkspaceFolder_def fromData_def tst_get_def
        map_new_WorkspaceFolder Let_def)

lemma getWorkspaceFolder_only_owner:
  assumes "workspace s = fromData (Some d)"
    and f: "f \<in> set (data_folders d)"
    and sp: "strict_prefix (folder_key f) (segments (toString p))"
    and un: "\<And>g. g \<in> set (data_folders d) \<Longrightarrow> prefix (folder_key g) (segments (toString p)) \<Longrightarrow> g = f"
  shows "getWorkspaceFolder env s p rp = Some f"
proof -
  let ?t = "priv_structure (new_Workspace2 (data_id d) (data_name d) (data_folders d))"
  have nokey: "map_of ?t (segments (toString p)) = None"
  proof (rule ccontr)
    assume "map_of ?t (segments (toString p)) \<noteq> None"
    then obtain g where "map_of ?t (segments (toString p)) = Some g" by blast
    from structure_Some [OF this] have "g \<in> set (data_folders d)" "folder_key g = segments (toString p)"
      by blast+
    with un [of g] have "folder_key f = segments (toString p)" by simp
    with sp show False by simp
  qed
  have r: "getWorkspaceFolder env s p rp = tst_findSubstr (toString p) ?t"
    by (simp add: getWorkspaceFolder_fromData [OF assms(1)] nokey)
  show ?thesis
  proof (cases "tst_findSubstr (toString p) ?t")
    case None
    from sp have "prefix (folder_key f) (segments (toString p))"
      by (rule strict_prefixE) simp
    from tst_findSubstr_None [OF None this] structure_defined [OF f]
    show ?thesis by blast
  next
    case (Some g)
    from tst_findSubstr_Some [OF Some] obtain k where
      k: "prefix k (segments (toString p))" "map_of ?t k = Some g"
      by blast
    from structure_Some [OF k(2)] have "g \<in> set (data_folders d)" "folder_key g = k"
      by blast+
    with un [of g] k(1) have "g = f" by simp
    with Some r show ?thesis by simp
  qed
qed




subsection \<open>Relative paths\<close>

lemma getRelativePath_example:
  assumes "workspace s = fromData (data_of fs)" and "set fs \<subseteq> {folder_a, folder_x}"
    and "folder_a \<in> set fs"
  shows "getWorkspaceFolder env s (URI_file ''/a/b/c.txt'') True = Some folder_a"
proof -
  have w: "workspace s = fromData (Some \<lparr>data_id = ''id'', data_name = ''workspace'', data_folders = fs\<rparr>)"
    using assms(1) by (simp add: data_of_def)
  have k: "folder_key folder_a = [''file:'', ''a'']" "folder_key folder_x = [''file:'', ''x'']"
    "segments (toString (URI_file ''/a/b/c.txt'')) = [''file:'', ''a'', ''b'', ''c.txt'']"
    by code_simp+
  have "strict_prefix (folder_key folder_a) (segments (toString (URI_file ''/a/b/c.txt'')))"
    unfolding k by code_simp
  moreover have "\<forall>g \<in> set fs. prefix (folder_key g) (segments (toString (URI_file ''/a/b/c.txt'')))
      \<longrightarrow> g = folder_a"
  proof (intro ballI impI)
    fix g assume g: "g \<in> set fs" "prefix (folder_key g) (segments (toString (URI_file ''/a/b/c.txt'')))"
    have "\<not> prefix (folder_key folder_x) (segments (toString (URI_file ''/a/b/c.txt'')))"
      unfolding k by code_simp
    with g assms(2) show "g = folder_a" by auto
  qed
  ultimately show ?thesis
    using getWorkspaceFolder_only_owner [OF w, of folder_a "URI_file ''/a/b/c.txt''" env True] assms(3)
    by simp
qed

lemma getRelativePath_found:
  assumes "getWorkspaceFolder env s u True = Some folder" and "workspace s = Some w"
    and "str \<noteq> []"
    and "pathOrUri = PathString str \<and> u = URI_file str \<or> pathOrUri = PathUri u \<and> str = fsPath u"
  shows "getRelativePath env s pathOrUri inc =
     Some (normalize_path env
       ((if inc = Some True \<or> (inc = None \<and> 1 < length (folders w))
         then name folder @ ''/'' else []) @
        relative env (fsPath (uri folder)) str))"
  using assms by (cases inc) (auto simp: getRelativePath_def Let_def)

lemma getRelativePath_not_found:
  assumes "getWorkspaceFolder env s u True = None"
    and "pathOrUri = PathString str \<and> u = URI_file str \<or> pathOrUri = PathUri u \<and> str = fsPath u"
  shows "getRelativePath env s pathOrUri inc = Some str"
  using assms by (auto simp: getRelativePath_def Let_def)

lemma getRelativePath_empty:
  "getRelativePath env s PathUndefined inc = None"
  "getRelativePath env s (PathString []) inc = Some []"
  "fsPath u = [] \<Longrightarrow> getRelativePath env s (PathUri u) inc = Some []"
  by (simp_all add: getRelativePath_def)

text \<open>
  Claim C9. \<open>getRelativePath\<close> returns an absent or empty input as it is, and the input
  path as it is when no folder owns it. When a folder owns it, the result is the
  normalized form of the path relative to the folder's root, with the folder's name and a
  slash put in front exactly when \<open>includeWorkspace\<close> is true, or is left out while the
  workspace has more than one folder. On every platform whose \<open>relative\<close> takes
  \<^verbatim>\<open>/a/b/c.txt\<close> under \<^verbatim>\<open>/a\<close> to \<^verbatim>\<open>b/c.txt\<close> and whose \<open>normalize\<close> leaves the result
  alone, the single folder \<^verbatim>\<open>/a\<close> gives \<^verbatim>\<open>b/c.txt\<close> and the two folders \<^verbatim>\<open>/a\<close>, \<^verbatim>\<open>/x\<close>
  give \<^verbatim>\<open>a/b/c.txt\<close>.
\<close>

theorem getRelativePath_spec:
  "getRelativePath env s PathUndefined inc = None
   \<and> getRelativePath env s (PathString []) inc = Some []
   \<and> (fsPath u = [] \<longrightarrow> getRelativePath env s (PathUri u) inc = Some [])
   \<and> ((pathOrUri = PathString str \<and> u = URI_file str \<or> pathOrUri = PathUri u \<and> str = fsPath u)
        \<and> getWorkspaceFolder env s u True = None
       \<longrightarrow> getRelativePath env s pathOrUri inc = Some str)
   \<and> ((pathOrUri = PathString str \<and> u = URI_file str \<or> pathOrUri = PathUri u \<and> str = fsPath u)
        \<and> str \<noteq> [] \<and> getWorkspaceFolder env s u True = Some folder \<and> workspace s = Some w
       \<longrightarrow> getRelativePath env s pathOrUri inc =
             Some (normalize_path env
               ((if inc = Some True \<or> (inc = None \<and> 1 < length (folders w))
                 then name folder @ ''/'' else []) @
                relative env (fsPath (uri folder)) str)))
   \<and> (relative env ''/a'' ''/a/b/c.txt'' = ''b/c.txt'' \<and> normalize_path env ''b/c.txt'' = ''b/c.txt''
       \<longrightarrow> getRelativePath env (new_ExtHostWorkspace (data_of [folder_a]))
             (PathString ''/a/b/c.txt'') None = Some ''b/c.txt'')
   \<and> (relative env ''/a'' ''/a/b/c.txt'' = ''b/c.txt'' \<and> normalize_path env ''a/b/c.txt'' = ''a/b/c.txt''
       \<longrightarrow> getRelativePath env (new_ExtHostWorkspace (data_of [folder_a, folder_x]))
             (PathString ''/a/b/c.txt'') None = Some ''a/b/c.txt'')"
proof -
  have fs: "fsPath (uri folder_a) = ''/a''" "name folder_a = ''a''"
    by code_simp+
  have one: "getRelativePath env (new_ExtHostWorkspace (data_of [folder_a]))
             (PathString ''/a/b/c.txt'') None = Some ''b/c.txt''"
    if "relative env ''/a'' ''/a/b/c.txt'' = ''b/c.txt''" "normalize_path env ''b/c.txt'' = ''b/c.txt''"
  proof -
    have w: "workspace (new_ExtHostWorkspace (data_of [folder_a])) =
               Some (new_Workspace2 ''id'' ''workspace'' [folder_a])"
      by (simp add: new_ExtHostWorkspace_def data_of_def fromData_def new_WorkspaceFolder_ident)
    have g: "getWorkspaceFolder env (new_ExtHostWorkspace (data_of [folder_a]))
               (URI_file ''/a/b/c.txt'') True = Some folder_a"
      by (rule getRelativePath_example [of _ "[folder_a]"])
         (simp_all add: new_ExtHostWorkspace_def)
    show ?thesis
      using getRelativePath_found [OF g w, of "''/a/b/c.txt''" "PathString ''/a/b/c.txt''" None] that
      by (simp add: fs new_Workspace2_def)
  qed
  have two: "getRelativePath env (new_ExtHostWorkspace (data_of [folder_a, folder_x]))
             (PathString ''/a/b/c.txt'') None = Some ''a/b/c.txt''"
    if "relative env ''/a'' ''/a/b/c.txt'' = ''b/c.txt''" "normalize_path env ''a/b/c.txt'' = ''a/b/c.txt''"
  proof -
    have w: "workspace (new_ExtHostWorkspace (data_of [folder_a, folder_x])) =
               Some (new_Workspace2 ''id'' ''workspace'' [folder_a, folder_x])"
      by (simp add: new_ExtHostWorkspace_def data_of_def fromData_def new_WorkspaceFolder_ident)
    have g: "getWorkspaceFolder env (new_ExtHostWorkspace (data_of [folder_a, folder_x]))
               (URI_file ''/a/b/c.txt'') True = Some folder_a"
      by (rule getRelativePath_example [of _ "[folder_a, folder_x]"])
         (simp_all add: new_ExtHostWorkspace_def)
    show ?thesis
      using getRelativePath_found [OF g w, of "''/a/b/c.txt''" "PathString ''/a/b/c.txt''" None] that
      by (simp add: fs new_Workspace2_def)
  qed
  show ?thesis
    using getRelativePath_empty(1) [where env = env and s = s and inc = inc]
      getRelativePath_empty(2) [where env = env and s = s and inc = inc]
      getRelativePath_empty(3) [where env = env and s = s and inc = inc and u = u]
      getRelativePath_not_found [where env = env and s = s and inc = inc and u = u
        and pathOrUri = pathOrUri and str = str]
      getRelativePath_found [where env = env and s = s and inc = inc and u = u
        and pathOrUri = pathOrUri and str = str and folder = folder and w = w]
      one two
    by blast
qed

theorem getRelativePath_spec_witness:
  "getRelativePath posix (new_ExtHostWorkspace (data_of [folder_a]))
     (PathString ''/a/b/c.txt'') None = Some ''b/c.txt''
   \<and> getRelativePath posix (new_ExtHostWorkspace (data_of [folder_a, folder_x]))
     (PathString ''/a/b/c.txt'') None = Some ''a/b/c.txt''
   \<and> getRelativePath posix (new_ExtHostWorkspace (data_of [folder_a]))
     (PathString ''/a/b/c.txt'') (Some True) = Some ''a/b/c.txt''
   \<and> getRelativePath posix (new_ExtHostWorkspace (data_of [folder_a]))
     (PathString ''/y/z'') None = Some ''/y/z''"
proof -
  have h: "relative posix ''/a'' ''/a/b/c.txt'' = ''b/c.txt''"
    "normalize_path posix ''b/c.txt'' = ''b/c.txt''"
    "normalize_path posix ''a/b/c.txt'' = ''a/b/c.txt''"
    by code_simp+
  have e: "getRelativePath posix (new_ExtHostWorkspace (data_of [folder_a]))
     (PathString ''/a/b/c.txt'') (Some True) = Some ''a/b/c.txt''"
    "getRelativePath posix (new_ExtHostWorkspace (data_of [folder_a]))
     (PathString ''/y/z'') None = Some ''/y/z''"
    by code_simp+
  show ?thesis
    using getRelativePath_spec [of posix] h e by blast
qed

end
